theory Spec2Isabelle
  imports Complex_Main "HOL-Library.Log_Nat"
begin

section \<open>Request items\<close>

text \<open>
  Modelled from the spec: the five request records of
  \<^verbatim>\<open>google.cloud.pubsub_v1.subscriber._protocol.requests\<close>, which the
  dispatcher and the message handle import but which is not part of the sources at
  hand. Each is a named tuple; the field order is the one of the spec's data model,
  which is also the positional order that \<^verbatim>\<open>DropRequest(*item)\<close> relies on.
\<close>

datatype AckRequest =
  AckRequest (ack_id: string) (byte_size: int) (time_to_ack: "int option") (ordering_key: string)

datatype DropRequest =
  DropRequest (ack_id: string) (byte_size: int) (ordering_key: string)

datatype LeaseRequest =
  LeaseRequest (ack_id: string) (byte_size: int) (ordering_key: string)

datatype ModAckRequest =
  ModAckRequest (ack_id: string) (seconds: int)

datatype NackRequest =
  NackRequest (ack_id: string) (byte_size: int) (ordering_key: string)

text \<open>
  What the request queue can hold: one of the five records of the union
  \<^verbatim>\<open>RequestItem\<close>, or an object of any other type (Python does not enforce
  the annotation), kept with the text of its type.
\<close>

datatype queue_item =
  Ack AckRequest
| Drop DropRequest
| Lease LeaseRequest
| ModAck ModAckRequest
| Nack NackRequest
| Unrecognized string

text \<open>
  The argument of \<^verbatim>\<open>Dispatcher.drop\<close> is a sequence of
  \<^verbatim>\<open>Union[AckRequest, DropRequest, NackRequest]\<close>.
\<close>

datatype drop_item =
  OfAck AckRequest
| OfDrop DropRequest
| OfNack NackRequest

fun item_ordering_key :: "drop_item \<Rightarrow> string" where
  "item_ordering_key (OfAck r) = AckRequest.ordering_key r"
| "item_ordering_key (OfDrop r) = DropRequest.ordering_key r"
| "item_ordering_key (OfNack r) = NackRequest.ordering_key r"

section \<open>Collaborators\<close>

text \<open>
  Modelled from the spec: the outbound request
  \<^verbatim>\<open>gapic_types.StreamingPullRequest\<close>, of which the dispatcher sets three
  repeated fields; a field that the constructor is not given is empty.
\<close>

record StreamingPullRequest =
  ack_ids :: "string list"
  modify_deadline_ack_ids :: "string list"
  modify_deadline_seconds :: "int list"

text \<open>
  The manager, its histogram and its leaser are black boxes: a call to one of them is
  recorded, in the order in which the calls are made.
\<close>

datatype call =
  LeaserAdd "LeaseRequest list"
| LeaserRemove "drop_item list"
| Send StreamingPullRequest
| HistogramAdd int
| ActivateOrderingKeys "string list"
| MaybePauseConsumer
| MaybeResumeConsumer

text \<open>
  The world of the dispatcher's handlers: whether \<^verbatim>\<open>manager.leaser\<close> is set
  (the handlers assert it), the calls made so far and the warnings issued so far.
\<close>

record world =
  leaser_present :: bool
  calls :: "call list"
  warnings :: "string list"

datatype error = AssertionError | ValueError

datatype outcome = Returned | Raised error

type_synonym handler = "world \<Rightarrow> outcome \<times> world"

definition record_call :: "call \<Rightarrow> world \<Rightarrow> world" where
  "record_call c w = w\<lparr>calls := calls w @ [c]\<rparr>"

definition warn :: "string \<Rightarrow> world \<Rightarrow> world" where
  "warn msg w = w\<lparr>warnings := warnings w @ [msg]\<rparr>"

text \<open>Two statements in sequence: an exception of the first skips the second.\<close>

definition and_then :: "handler \<Rightarrow> handler \<Rightarrow> handler" where
  "and_then f g w =
     (case f w of
        (Returned, w') \<Rightarrow> g w'
      | (Raised e, w') \<Rightarrow> (Raised e, w'))"

text \<open>\<^verbatim>\<open>if bucket: handler(bucket)\<close>\<close>

definition when_nonempty :: "'a list \<Rightarrow> ('a list \<Rightarrow> handler) \<Rightarrow> handler" where
  "when_nonempty xs h w = (if xs \<noteq> [] then h xs w else (Returned, w))"

section \<open>The dispatcher's handlers\<close>

definition ACK_IDS_BATCH_SIZE :: nat where
  "ACK_IDS_BATCH_SIZE = 2500"

text \<open>\<^verbatim>\<open>int(math.ceil(len(items) / _ACK_IDS_BATCH_SIZE))\<close>, with true division.\<close>

definition total_chunks :: "nat \<Rightarrow> nat" where
  "total_chunks n = nat \<lceil>real n / real ACK_IDS_BATCH_SIZE\<rceil>"

text \<open>
  The loop \<^verbatim>\<open>for _ in range(total_chunks)\<close> of \<^verbatim>\<open>ack\<close>: the generator
  \<^verbatim>\<open>ack_ids\<close> is shared by the iterations, and each
  \<^verbatim>\<open>itertools.islice(ack_ids, _ACK_IDS_BATCH_SIZE)\<close> consumes its next
  elements, fewer when it runs dry.
\<close>

fun ack_loop :: "nat \<Rightarrow> string list \<Rightarrow> world \<Rightarrow> world" where
  "ack_loop 0 ids w = w"
| "ack_loop (Suc n) ids w =
     ack_loop n (drop ACK_IDS_BATCH_SIZE ids)
       (record_call
          (Send \<lparr>ack_ids = take ACK_IDS_BATCH_SIZE ids,
                 modify_deadline_ack_ids = [],
                 modify_deadline_seconds = []\<rparr>) w)"

text \<open>The loop of \<^verbatim>\<open>modify_ack_deadline\<close>, over two generators.\<close>

fun modack_loop :: "nat \<Rightarrow> string list \<Rightarrow> int list \<Rightarrow> world \<Rightarrow> world" where
  "modack_loop 0 ids secs w = w"
| "modack_loop (Suc n) ids secs w =
     modack_loop n (drop ACK_IDS_BATCH_SIZE ids) (drop ACK_IDS_BATCH_SIZE secs)
       (record_call
          (Send \<lparr>ack_ids = [],
                 modify_deadline_ack_ids = take ACK_IDS_BATCH_SIZE ids,
                 modify_deadline_seconds = take ACK_IDS_BATCH_SIZE secs\<rparr>) w)"

text \<open>The first loop of \<^verbatim>\<open>ack\<close>: timing information goes to the histogram.\<close>

fun histogram_loop :: "AckRequest list \<Rightarrow> world \<Rightarrow> world" where
  "histogram_loop [] w = w"
| "histogram_loop (item # items) w =
     histogram_loop items
       (case time_to_ack item of
          None \<Rightarrow> w
        | Some t \<Rightarrow> record_call (HistogramAdd t) w)"

definition drop_items :: "drop_item list \<Rightarrow> handler" where
  "drop_items items w =
     (if \<not> leaser_present w then (Raised AssertionError, w)
      else
        (Returned,
         record_call MaybeResumeConsumer
           (record_call
              (ActivateOrderingKeys
                 (map item_ordering_key (filter (\<lambda>k. item_ordering_key k \<noteq> []) items)))
              (record_call (LeaserRemove items) w))))"

definition lease :: "LeaseRequest list \<Rightarrow> handler" where
  "lease items w =
     (if \<not> leaser_present w then (Raised AssertionError, w)
      else
        (Returned,
         record_call MaybePauseConsumer (record_call (LeaserAdd items) w)))"

definition modify_ack_deadline :: "ModAckRequest list \<Rightarrow> handler" where
  "modify_ack_deadline items w =
     (Returned,
      modack_loop (total_chunks (length items))
        (map ModAckRequest.ack_id items) (map seconds items) w)"

definition ack :: "AckRequest list \<Rightarrow> handler" where
  "ack items w =
     drop_items (map OfAck items)
       (ack_loop (total_chunks (length items)) (map AckRequest.ack_id items)
          (histogram_loop items w))"

definition nack :: "NackRequest list \<Rightarrow> handler" where
  "nack items =
     and_then
       (modify_ack_deadline
          (map (\<lambda>item. ModAckRequest (NackRequest.ack_id item) 0) items))
       (drop_items
          (map (\<lambda>item. case item of NackRequest a b k \<Rightarrow> OfDrop (DropRequest a b k)) items))"

section \<open>Classification of a batch\<close>

record buckets =
  lease_requests :: "LeaseRequest list"
  modack_requests :: "ModAckRequest list"
  ack_requests :: "AckRequest list"
  nack_requests :: "NackRequest list"
  drop_requests :: "DropRequest list"

definition no_buckets :: buckets where
  "no_buckets =
     \<lparr>lease_requests = [], modack_requests = [], ack_requests = [],
      nack_requests = [], drop_requests = []\<rparr>"

definition unknown_warning :: "string \<Rightarrow> string" where
  "unknown_warning ty = ''Skipping unknown request item of type \"'' @ ty @ ''\"''"

text \<open>One turn of \<^verbatim>\<open>for item in items\<close>, in the order of the \<^verbatim>\<open>isinstance\<close> chain.\<close>

fun classify :: "queue_item \<Rightarrow> buckets \<times> world \<Rightarrow> buckets \<times> world" where
  "classify (Lease r) (b, w) = (b\<lparr>lease_requests := lease_requests b @ [r]\<rparr>, w)"
| "classify (ModAck r) (b, w) = (b\<lparr>modack_requests := modack_requests b @ [r]\<rparr>, w)"
| "classify (Ack r) (b, w) = (b\<lparr>ack_requests := ack_requests b @ [r]\<rparr>, w)"
| "classify (Nack r) (b, w) = (b\<lparr>nack_requests := nack_requests b @ [r]\<rparr>, w)"
| "classify (Drop r) (b, w) = (b\<lparr>drop_requests := drop_requests b @ [r]\<rparr>, w)"
| "classify (Unrecognized ty) (b, w) = (b, warn (unknown_warning ty) w)"

fun classify_all :: "queue_item list \<Rightarrow> buckets \<times> world \<Rightarrow> buckets \<times> world" where
  "classify_all [] bw = bw"
| "classify_all (item # items) bw = classify_all items (classify item bw)"

definition dispatch_callback :: "queue_item list \<Rightarrow> handler" where
  "dispatch_callback items w =
     (case classify_all items (no_buckets, w) of
        (b, w') \<Rightarrow>
          and_then (when_nonempty (lease_requests b) lease)
         (and_then (when_nonempty (modack_requests b) modify_ack_deadline)
         (and_then (when_nonempty (ack_requests b) ack)
         (and_then (when_nonempty (nack_requests b) nack)
                   (when_nonempty (drop_requests b) (\<lambda>ds. drop_items (map OfDrop ds))))))
            w')"


section \<open>Lifecycle of the dispatcher\<close>

text \<open>
  Modelled from the spec: the worker of \<^verbatim>\<open>helper_threads\<close>, of which only
  the configuration is visible here, and the thread that runs it. What the thread does
  once started is outside this model: starting it, queueing the stop sentinel and
  joining it are recorded as effects.
\<close>

record QueueCallbackWorker =
  max_items :: nat
  max_latency :: real

record Thread =
  name :: string
  daemon :: bool
  target :: QueueCallbackWorker
  ident :: nat

datatype lifecycle_effect =
  ThreadStart Thread
| QueuePutSTOP
| ThreadJoin Thread

record Dispatcher =
  thread :: "Thread option"
  effects :: "lifecycle_effect list"

definition CALLBACK_WORKER_NAME :: string where
  "CALLBACK_WORKER_NAME = ''Thread-CallbackRequestDispatcher''"

definition MAX_BATCH_SIZE :: nat where
  "MAX_BATCH_SIZE = 100"

definition MAX_BATCH_LATENCY :: real where
  "MAX_BATCH_LATENCY = 1 / 100"

definition start :: "Dispatcher \<Rightarrow> outcome \<times> Dispatcher" where
  "start d =
     (if thread d \<noteq> None then (Raised ValueError, d)
      else
        (let worker = \<lparr>max_items = MAX_BATCH_SIZE, max_latency = MAX_BATCH_LATENCY\<rparr>;
             t = \<lparr>name = CALLBACK_WORKER_NAME, daemon = True, target = worker,
                  ident = length (effects d)\<rparr>
         in (Returned, d\<lparr>thread := Some t, effects := effects d @ [ThreadStart t]\<rparr>)))"

definition stop :: "Dispatcher \<Rightarrow> outcome \<times> Dispatcher" where
  "stop d =
     (Returned,
      (case thread d of
         None \<Rightarrow> d
       | Some t \<Rightarrow> d\<lparr>effects := effects d @ [QueuePutSTOP, ThreadJoin t]\<rparr>)
      \<lparr>thread := None\<rparr>)"

section \<open>Clock readings\<close>

text \<open>
  \<^verbatim>\<open>time.time()\<close> returns a Python float, a binary64 number: an integer
  mantissa of at most 53 bits times a power of two. Infinities and NaN are no clock
  readings, and the overflow of a difference is out of their reach, so neither is
  modelled.
\<close>

datatype double = Double (mantissa: int) (exponent: int)

text \<open>The number that a float stands for.\<close>

definition to_real :: "double \<Rightarrow> real" where
  "to_real d =
     (if 0 \<le> exponent d then of_int (mantissa d * 2 ^ nat (exponent d))
      else of_int (mantissa d) / 2 ^ nat (- exponent d))"

definition is_double :: "double \<Rightarrow> bool" where
  "is_double d \<longleftrightarrow> \<bar>mantissa d\<bar> < 2 ^ 53 \<and> - 1074 \<le> exponent d \<and> exponent d \<le> 971"

text \<open>\<open>m / 2 ^ k\<close> rounded to the nearest integer, a tie to the even one.\<close>

definition round_half_even :: "int \<Rightarrow> nat \<Rightarrow> int" where
  "round_half_even m k =
     (let q = m div 2 ^ k; r = m mod 2 ^ k
      in if 2 * r < 2 ^ k then q
         else if 2 * r > 2 ^ k then q + 1
         else if even q then q else q + 1)"

text \<open>
  The subtraction of two floats: the exact difference, written with the smaller of the two
  exponents, is rounded to 53 bits.
\<close>

definition double_sub :: "double \<Rightarrow> double \<Rightarrow> double" where
  "double_sub a b =
     (let e = min (exponent a) (exponent b);
          m = mantissa a * 2 ^ nat (exponent a - e) - mantissa b * 2 ^ nat (exponent b - e);
          k = nat (bitlen \<bar>m\<bar> - 53)
      in Double (round_half_even m k) (e + int k))"

text \<open>\<^verbatim>\<open>math.ceil\<close> of a float is exact.\<close>

definition math_ceil :: "double \<Rightarrow> int" where
  "math_ceil d = \<lceil>to_real d\<rceil>"

section \<open>The message handle\<close>

text \<open>A \<^verbatim>\<open>datetime\<close>, in microseconds since the epoch.\<close>

type_synonym datetime = int

text \<open>
  The attributes that \<^verbatim>\<open>Message.__init__\<close> stores. \<open>size_bytes\<close> is the
  attribute \<^verbatim>\<open>_size\<close>.
\<close>

record Message =
  message_id :: string
  ack_id :: string
  delivery_attempt :: "int option"
  received_timestamp :: double
  attributes :: "(string \<times> string) list"
  data :: string
  publish_time :: datetime
  ordering_key :: string
  size_bytes :: int

text \<open>
  Modelled from the spec: the raw protobuf message that \<^verbatim>\<open>Message.__init__\<close>
  reads, with the result of its \<^verbatim>\<open>ByteSize()\<close>.
\<close>

record PubsubMessage =
  pb_message_id :: string
  pb_attributes :: "(string \<times> string) list"
  pb_data :: string
  pb_publish_seconds :: int
  pb_publish_nanos :: int
  pb_ordering_key :: string
  pb_byte_size :: int

text \<open>
  \<open>now\<close> is what \<^verbatim>\<open>time.time()\<close> returns during the construction.
  \<open>fromtimestamp\<close> stands for the datetime library: applied to the seconds and the
  nanoseconds of the publish time it is the result of
  \<^verbatim>\<open>dt.datetime.fromtimestamp(seconds + nanos / 1e9, tz=dt.timezone.utc)\<close>.
\<close>

definition Message_init ::
  "(int \<Rightarrow> int \<Rightarrow> datetime) \<Rightarrow> PubsubMessage \<Rightarrow> string \<Rightarrow> int \<Rightarrow> double \<Rightarrow> Message" where
  "Message_init fromtimestamp pb aid attempt now =
     \<lparr>message_id = pb_message_id pb,
      ack_id = aid,
      delivery_attempt = (if attempt > 0 then Some attempt else None),
      received_timestamp = now,
      attributes = pb_attributes pb,
      data = pb_data pb,
      publish_time = fromtimestamp (pb_publish_seconds pb) (pb_publish_nanos pb),
      ordering_key = pb_ordering_key pb,
      size_bytes = pb_byte_size pb\<rparr>"

text \<open>
  A handle, the request queue it was given, and the collaborators of the dispatcher,
  which a handle has no reference to.
\<close>

record subscriber =
  message :: Message
  request_queue :: "queue_item list"
  collaborators :: world

definition queue_put :: "queue_item \<Rightarrow> subscriber \<Rightarrow> subscriber" where
  "queue_put item s = s\<lparr>request_queue := request_queue s @ [item]\<rparr>"

text \<open>\<open>now\<close> is what \<^verbatim>\<open>time.time()\<close> returns during the call.\<close>

definition Message_ack :: "double \<Rightarrow> subscriber \<Rightarrow> outcome \<times> subscriber" where
  "Message_ack now s =
     (let time_to_ack = math_ceil (double_sub now (received_timestamp (message s)))
      in (Returned,
          queue_put
            (Ack (AckRequest (Message.ack_id (message s)) (size_bytes (message s))
                    (Some time_to_ack) (Message.ordering_key (message s)))) s))"

definition Message_drop :: "subscriber \<Rightarrow> outcome \<times> subscriber" where
  "Message_drop s =
     (Returned,
      queue_put
        (Drop (DropRequest (Message.ack_id (message s)) (size_bytes (message s))
                 (Message.ordering_key (message s)))) s)"

definition Message_modify_ack_deadline :: "int \<Rightarrow> subscriber \<Rightarrow> outcome \<times> subscriber" where
  "Message_modify_ack_deadline secs s =
     (Returned, queue_put (ModAck (ModAckRequest (Message.ack_id (message s)) secs)) s)"

definition Message_nack :: "subscriber \<Rightarrow> outcome \<times> subscriber" where
  "Message_nack s =
     (Returned,
      queue_put
        (Nack (NackRequest (Message.ack_id (message s)) (size_bytes (message s))
                 (Message.ordering_key (message s)))) s)"

text \<open>A caller's operations on one handle, one after the other.\<close>

datatype handle_op = CallAck double | CallNack | CallModAck int | CallDrop

fun call_op :: "handle_op \<Rightarrow> subscriber \<Rightarrow> outcome \<times> subscriber" where
  "call_op (CallAck now) s = Message_ack now s"
| "call_op CallNack s = Message_nack s"
| "call_op (CallModAck secs) s = Message_modify_ack_deadline secs s"
| "call_op CallDrop s = Message_drop s"

fun call_ops :: "handle_op list \<Rightarrow> subscriber \<Rightarrow> outcome \<times> subscriber" where
  "call_ops [] s = (Returned, s)"
| "call_ops (op # ops) s =
     (case call_op op s of
        (Returned, s') \<Rightarrow> call_ops ops s'
      | (Raised e, s') \<Rightarrow> (Raised e, s'))"

section \<open>Observing the calls\<close>

text \<open>The calls that were made between the world \<open>w\<close> and the later world \<open>w'\<close>.\<close>

definition new_calls :: "world \<Rightarrow> world \<Rightarrow> call list" where
  "new_calls w w' = drop (length (calls w)) (calls w')"

definition calls_of :: "handler \<Rightarrow> world \<Rightarrow> call list" where
  "calls_of h w = new_calls w (snd (h w))"

fun sent_requests :: "call list \<Rightarrow> StreamingPullRequest list" where
  "sent_requests [] = []"
| "sent_requests (Send r # cs) = r # sent_requests cs"
| "sent_requests (c # cs) = sent_requests cs"

text \<open>The requests that the two sending loops build, as lists.\<close>

fun ack_chunks :: "nat \<Rightarrow> string list \<Rightarrow> StreamingPullRequest list" where
  "ack_chunks 0 ids = []"
| "ack_chunks (Suc n) ids =
     \<lparr>ack_ids = take ACK_IDS_BATCH_SIZE ids, modify_deadline_ack_ids = [],
      modify_deadline_seconds = []\<rparr> # ack_chunks n (drop ACK_IDS_BATCH_SIZE ids)"

fun modack_chunks :: "nat \<Rightarrow> string list \<Rightarrow> int list \<Rightarrow> StreamingPullRequest list" where
  "modack_chunks 0 ids secs = []"
| "modack_chunks (Suc n) ids secs =
     \<lparr>ack_ids = [], modify_deadline_ack_ids = take ACK_IDS_BATCH_SIZE ids,
      modify_deadline_seconds = take ACK_IDS_BATCH_SIZE secs\<rparr>
     # modack_chunks n (drop ACK_IDS_BATCH_SIZE ids) (drop ACK_IDS_BATCH_SIZE secs)"

text \<open>The buckets of a batch, as order-preserving selections.\<close>

fun leases_in :: "queue_item list \<Rightarrow> LeaseRequest list" where
  "leases_in [] = []"
| "leases_in (Lease r # items) = r # leases_in items"
| "leases_in (item # items) = leases_in items"

fun modacks_in :: "queue_item list \<Rightarrow> ModAckRequest list" where
  "modacks_in [] = []"
| "modacks_in (ModAck r # items) = r # modacks_in items"
| "modacks_in (item # items) = modacks_in items"

fun acks_in :: "queue_item list \<Rightarrow> AckRequest list" where
  "acks_in [] = []"
| "acks_in (Ack r # items) = r # acks_in items"
| "acks_in (item # items) = acks_in items"

fun nacks_in :: "queue_item list \<Rightarrow> NackRequest list" where
  "nacks_in [] = []"
| "nacks_in (Nack r # items) = r # nacks_in items"
| "nacks_in (item # items) = nacks_in items"

fun drops_in :: "queue_item list \<Rightarrow> DropRequest list" where
  "drops_in [] = []"
| "drops_in (Drop r # items) = r # drops_in items"
| "drops_in (item # items) = drops_in items"

fun unrecognized_in :: "queue_item list \<Rightarrow> string list" where
  "unrecognized_in [] = []"
| "unrecognized_in (Unrecognized ty # items) = ty # unrecognized_in items"
| "unrecognized_in (item # items) = unrecognized_in items"

fun recognized :: "queue_item \<Rightarrow> bool" where
  "recognized (Unrecognized ty) = False"
| "recognized item = True"

text \<open>The calls that each handler makes when the leaser is set.\<close>

definition lease_calls :: "LeaseRequest list \<Rightarrow> call list" where
  "lease_calls items = [LeaserAdd items, MaybePauseConsumer]"

definition modack_calls :: "ModAckRequest list \<Rightarrow> call list" where
  "modack_calls items =
     map Send (modack_chunks (total_chunks (length items))
                 (map ModAckRequest.ack_id items) (map seconds items))"

definition drop_calls :: "drop_item list \<Rightarrow> call list" where
  "drop_calls items =
     [LeaserRemove items,
      ActivateOrderingKeys
        (map item_ordering_key (filter (\<lambda>k. item_ordering_key k \<noteq> []) items)),
      MaybeResumeConsumer]"

definition ack_sends :: "AckRequest list \<Rightarrow> call list" where
  "ack_sends items =
     map HistogramAdd (List.map_filter time_to_ack items)
     @ map Send (ack_chunks (total_chunks (length items)) (map AckRequest.ack_id items))"

definition nack_mods :: "NackRequest list \<Rightarrow> ModAckRequest list" where
  "nack_mods items = map (\<lambda>item. ModAckRequest (NackRequest.ack_id item) 0) items"

definition nack_drops :: "NackRequest list \<Rightarrow> drop_item list" where
  "nack_drops items =
     map (\<lambda>item. OfDrop (DropRequest (NackRequest.ack_id item)
            (NackRequest.byte_size item) (NackRequest.ordering_key item))) items"

definition bucket_calls :: "'a list \<Rightarrow> ('a list \<Rightarrow> call list) \<Rightarrow> call list" where
  "bucket_calls xs f = (if xs = [] then [] else f xs)"

text \<open>The calls that reach the transport or the histogram only.\<close>

fun is_send_or_sample :: "call \<Rightarrow> bool" where
  "is_send_or_sample (Send r) = True"
| "is_send_or_sample (HistogramAdd t) = True"
| "is_send_or_sample c = False"

section \<open>The sending loops\<close>

lemma total_chunks_div: "total_chunks n = (n + 2499) div 2500"
proof -
  have "\<lceil>real n / 2500\<rceil> = int ((n + 2499) div 2500)"
  proof (rule ceiling_unique)
    have "real ((n + 2499) div 2500) * 2500 \<ge> real n"
    proof -
      have "(n + 2499) div 2500 * 2500 + (n + 2499) mod 2500 = n + 2499" by simp
      moreover have "(n + 2499) mod 2500 < 2500" by simp
      ultimately have "(n + 2499) div 2500 * 2500 \<ge> n" by linarith
      then show ?thesis by (metis of_nat_le_iff of_nat_mult of_nat_numeral)
    qed
    then show "real n / 2500 \<le> real_of_int (int ((n + 2499) div 2500))" by simp
    have "(n + 2499) div 2500 * 2500 \<le> n + 2499" by simp
    then have "((n + 2499) div 2500) * 2500 < n + 2500" by linarith
    then have "real (((n + 2499) div 2500) * 2500) < real (n + 2500)" by (simp only: of_nat_less_iff)
    then show "real_of_int (int ((n + 2499) div 2500)) - 1 < real n / 2500" by simp
  qed
  then show ?thesis by (simp add: total_chunks_def ACK_IDS_BATCH_SIZE_def)
qed

lemma ack_loop_world:
  "ack_loop n ids w = w\<lparr>calls := calls w @ map Send (ack_chunks n ids)\<rparr>"
  by (induction n arbitrary: ids w) (simp_all add: record_call_def)


lemma modack_loop_world:
  "modack_loop n ids secs w = w\<lparr>calls := calls w @ map Send (modack_chunks n ids secs)\<rparr>"
  by (induction n arbitrary: ids secs w) (simp_all add: record_call_def)

lemma sent_requests_append: "sent_requests (xs @ ys) = sent_requests xs @ sent_requests ys"
  by (induction xs rule: sent_requests.induct) simp_all

lemma sent_requests_Send: "sent_requests (map Send rs) = rs"
  by (induction rs) simp_all

lemma length_ack_chunks: "length (ack_chunks n ids) = n"
  by (induction n arbitrary: ids) simp_all

lemma ack_chunks_bounded:
  "r \<in> set (ack_chunks n ids) \<Longrightarrow>
     length (ack_ids r) \<le> 2500 \<and> modify_deadline_ack_ids r = [] \<and> modify_deadline_seconds r = []"
  by (induction n arbitrary: ids) (auto simp: ACK_IDS_BATCH_SIZE_def)

lemma concat_ack_chunks:
  "concat (map ack_ids (ack_chunks n ids)) = take (n * ACK_IDS_BATCH_SIZE) ids"
proof (induction n arbitrary: ids)
  case 0
  show ?case by simp
next
  case (Suc n)
  have "take ACK_IDS_BATCH_SIZE ids @ take (n * ACK_IDS_BATCH_SIZE) (drop ACK_IDS_BATCH_SIZE ids)
        = take (ACK_IDS_BATCH_SIZE + n * ACK_IDS_BATCH_SIZE) ids"
    by (simp add: take_add)
  with Suc show ?case by simp
qed

lemma chunks_cover: "n \<le> total_chunks n * ACK_IDS_BATCH_SIZE"
proof -
  have "(n + 2499) div 2500 * 2500 + (n + 2499) mod 2500 = n + 2499" by simp
  moreover have "(n + 2499) mod 2500 < 2500" by simp
  ultimately have "n \<le> (n + 2499) div 2500 * 2500" by linarith
  then show ?thesis by (simp add: total_chunks_div ACK_IDS_BATCH_SIZE_def)
qed

lemma ack_chunks_sizes_5001:
  "length ids = 5001 \<Longrightarrow> map (length \<circ> ack_ids) (ack_chunks 3 ids) = [2500, 2500, 1]"
  by (simp add: numeral_3_eq_3 ACK_IDS_BATCH_SIZE_def)

lemma length_modack_chunks: "length (modack_chunks n ids secs) = n"
  by (induction n arbitrary: ids secs) simp_all

lemma modack_chunks_bounded:
  "length ids = length secs \<Longrightarrow> r \<in> set (modack_chunks n ids secs) \<Longrightarrow>
     length (modify_deadline_ack_ids r) \<le> 2500 \<and>
     length (modify_deadline_seconds r) = length (modify_deadline_ack_ids r) \<and> ack_ids r = []"
proof (induction n arbitrary: ids secs)
  case 0
  then show ?case by simp
next
  case (Suc n)
  from Suc.prems(2) consider
      "r = \<lparr>ack_ids = [], modify_deadline_ack_ids = take ACK_IDS_BATCH_SIZE ids,
            modify_deadline_seconds = take ACK_IDS_BATCH_SIZE secs\<rparr>"
    | "r \<in> set (modack_chunks n (drop ACK_IDS_BATCH_SIZE ids) (drop ACK_IDS_BATCH_SIZE secs))"
    by auto
  then show ?case
  proof cases
    case 1
    with Suc.prems(1) show ?thesis by (simp add: ACK_IDS_BATCH_SIZE_def)
  next
    case 2
    moreover have "length (drop ACK_IDS_BATCH_SIZE ids) = length (drop ACK_IDS_BATCH_SIZE secs)"
      using Suc.prems(1) by simp
    ultimately show ?thesis using Suc.IH by blast
  qed
qed

lemma concat_modack_chunks:
  "length ids = length secs \<Longrightarrow>
   concat (map (\<lambda>r. zip (modify_deadline_ack_ids r) (modify_deadline_seconds r))
                (modack_chunks n ids secs))
     = take (n * ACK_IDS_BATCH_SIZE) (zip ids secs)"
proof (induction n arbitrary: ids secs)
  case 0
  show ?case by simp
next
  case (Suc n)
  have "take ACK_IDS_BATCH_SIZE (zip ids secs)
          @ take (n * ACK_IDS_BATCH_SIZE) (drop ACK_IDS_BATCH_SIZE (zip ids secs))
        = take (ACK_IDS_BATCH_SIZE + n * ACK_IDS_BATCH_SIZE) (zip ids secs)"
    by (simp add: take_add)
  with Suc show ?case by (simp add: take_zip drop_zip)
qed

lemma modack_chunks_sizes_5001:
  "length ids = 5001 \<Longrightarrow>
   map (length \<circ> modify_deadline_ack_ids) (modack_chunks 3 ids secs) = [2500, 2500, 1]"
  by (simp add: numeral_3_eq_3 ACK_IDS_BATCH_SIZE_def)

lemma drop_items_calls:
  "calls (snd (drop_items items w)) =
     calls w @ (if leaser_present w
                then [LeaserRemove items,
                      ActivateOrderingKeys
                        (map item_ordering_key (filter (\<lambda>k. item_ordering_key k \<noteq> []) items)),
                      MaybeResumeConsumer]
                else [])"
  by (simp add: drop_items_def record_call_def)

lemma histogram_loop_world:
  "histogram_loop items w =
     w\<lparr>calls := calls w @ map HistogramAdd (List.map_filter time_to_ack items)\<rparr>"
proof (induction items arbitrary: w)
  case Nil
  show ?case by simp
next
  case (Cons item items)
  show ?case
    by (cases "time_to_ack item") (simp_all add: Cons record_call_def)
qed

lemma sent_requests_HistogramAdd: "sent_requests (map HistogramAdd ts) = []"
  by (induction ts) simp_all

lemma ack_calls:
  "calls (snd (ack items w)) =
     calls w @ map HistogramAdd (List.map_filter time_to_ack items)
       @ map Send (ack_chunks (total_chunks (length items)) (map AckRequest.ack_id items))
       @ (if leaser_present w
          then [LeaserRemove (map OfAck items),
                ActivateOrderingKeys
                  (map item_ordering_key
                     (filter (\<lambda>k. item_ordering_key k \<noteq> []) (map OfAck items))),
                MaybeResumeConsumer]
          else [])"
  by (simp add: ack_def drop_items_calls ack_loop_world histogram_loop_world)

lemma ack_sent:
  "sent_requests (new_calls w (snd (ack items w)))
     = ack_chunks (total_chunks (length items)) (map AckRequest.ack_id items)"
  by (simp add: new_calls_def ack_calls sent_requests_append sent_requests_Send
      sent_requests_HistogramAdd)

lemma modack_sent:
  "sent_requests (new_calls w (snd (modify_ack_deadline items w)))
     = modack_chunks (total_chunks (length items))
         (map ModAckRequest.ack_id items) (map seconds items)"
  by (simp add: new_calls_def modify_ack_deadline_def modack_loop_world sent_requests_Send)

text \<open>
  C2. Chunking. For every list of \<open>N\<close> items given to \<^verbatim>\<open>Dispatcher.ack\<close> or to
  \<^verbatim>\<open>Dispatcher.modify_ack_deadline\<close>, exactly \<open>\<lceil>N / 2500\<rceil>\<close> requests are sent;
  each carries at most 2500 ack ids (for a deadline modification, at most 2500 ack ids
  paired by position with as many seconds) and nothing else; the chunks, put end to end,
  are the ack ids (the pairs) of the input in input order, so every item is in exactly one
  chunk; and 5001 items give three requests of sizes 2500, 2500 and 1.
\<close>

theorem chunking_ack_and_modack:
  "(let sent = sent_requests (new_calls w (snd (ack items w))) in
      length sent = nat \<lceil>real (length items) / 2500\<rceil> \<and>
      (\<forall>r \<in> set sent. length (ack_ids r) \<le> 2500 \<and>
          modify_deadline_ack_ids r = [] \<and> modify_deadline_seconds r = []) \<and>
      concat (map ack_ids sent) = map AckRequest.ack_id items \<and>
      (length items = 5001 \<longrightarrow> map (length \<circ> ack_ids) sent = [2500, 2500, 1]))
   \<and>
   (let sent = sent_requests (new_calls w (snd (modify_ack_deadline mods w))) in
      length sent = nat \<lceil>real (length mods) / 2500\<rceil> \<and>
      (\<forall>r \<in> set sent. length (modify_deadline_ack_ids r) \<le> 2500 \<and>
          length (modify_deadline_seconds r) = length (modify_deadline_ack_ids r) \<and>
          ack_ids r = []) \<and>
      concat (map (\<lambda>r. zip (modify_deadline_ack_ids r) (modify_deadline_seconds r)) sent)
        = map (\<lambda>item. (ModAckRequest.ack_id item, seconds item)) mods \<and>
      (length mods = 5001 \<longrightarrow>
         map (length \<circ> modify_deadline_ack_ids) sent = [2500, 2500, 1]))"
proof -
  let ?ids = "map AckRequest.ack_id items"
  let ?n = "total_chunks (length items)"
  have n: "?n = nat \<lceil>real (length items) / 2500\<rceil>"
    by (simp add: total_chunks_def ACK_IDS_BATCH_SIZE_def)
  have a1: "length (ack_chunks ?n ?ids) = nat \<lceil>real (length items) / 2500\<rceil>"
    using n by (simp only: length_ack_chunks)
  have a2: "\<forall>r \<in> set (ack_chunks ?n ?ids). length (ack_ids r) \<le> 2500 \<and>
          modify_deadline_ack_ids r = [] \<and> modify_deadline_seconds r = []"
    using ack_chunks_bounded by blast
  have a3: "concat (map ack_ids (ack_chunks ?n ?ids)) = ?ids"
    using chunks_cover[of "length items"] by (simp add: concat_ack_chunks)
  have a4: "length items = 5001 \<longrightarrow> map (length \<circ> ack_ids) (ack_chunks ?n ?ids) = [2500, 2500, 1]"
  proof
    assume l: "length items = 5001"
    then have "?n = 3" by (simp add: total_chunks_div)
    moreover have "length ?ids = 5001" using l by simp
    ultimately show "map (length \<circ> ack_ids) (ack_chunks ?n ?ids) = [2500, 2500, 1]"
      using ack_chunks_sizes_5001 by simp
  qed
  let ?mids = "map ModAckRequest.ack_id mods"
  let ?secs = "map seconds mods"
  let ?m = "total_chunks (length mods)"
  have m: "?m = nat \<lceil>real (length mods) / 2500\<rceil>"
    by (simp add: total_chunks_def ACK_IDS_BATCH_SIZE_def)
  have len: "length ?mids = length ?secs" by simp
  have b1: "length (modack_chunks ?m ?mids ?secs) = nat \<lceil>real (length mods) / 2500\<rceil>"
    using m by (simp only: length_modack_chunks)
  have b2: "\<forall>r \<in> set (modack_chunks ?m ?mids ?secs).
          length (modify_deadline_ack_ids r) \<le> 2500 \<and>
          length (modify_deadline_seconds r) = length (modify_deadline_ack_ids r) \<and>
          ack_ids r = []"
    using modack_chunks_bounded[OF len] by blast
  have z: "zip ?mids ?secs = map (\<lambda>item. (ModAckRequest.ack_id item, seconds item)) mods"
    by (induction mods) simp_all
  have b3: "concat (map (\<lambda>r. zip (modify_deadline_ack_ids r) (modify_deadline_seconds r))
                (modack_chunks ?m ?mids ?secs))
            = map (\<lambda>item. (ModAckRequest.ack_id item, seconds item)) mods"
    using chunks_cover[of "length mods"] by (simp add: concat_modack_chunks[OF len] z)
  have b4: "length mods = 5001 \<longrightarrow>
         map (length \<circ> modify_deadline_ack_ids) (modack_chunks ?m ?mids ?secs) = [2500, 2500, 1]"
  proof
    assume l: "length mods = 5001"
    then have "?m = 3" by (simp add: total_chunks_div)
    moreover have "length ?mids = 5001" using l by simp
    ultimately show "map (length \<circ> modify_deadline_ack_ids) (modack_chunks ?m ?mids ?secs)
        = [2500, 2500, 1]"
      using modack_chunks_sizes_5001 by simp
  qed
  show ?thesis
    unfolding Let_def ack_sent modack_sent
    using a1 a2 a3 a4 b1 b2 b3 b4 by blast
qed


theorem chunking_ack_and_modack_witness:
  "length (replicate 5001 (AckRequest ''a'' 10 None [])) = 5001 \<and>
   length (sent_requests (new_calls \<lparr>leaser_present = True, calls = [], warnings = []\<rparr>
      (snd (ack (replicate 5001 (AckRequest ''a'' 10 None []))
         \<lparr>leaser_present = True, calls = [], warnings = []\<rparr>)))) = 3 \<and>
   map (length \<circ> ack_ids)
     (sent_requests (new_calls \<lparr>leaser_present = True, calls = [], warnings = []\<rparr>
        (snd (ack (replicate 5001 (AckRequest ''a'' 10 None []))
           \<lparr>leaser_present = True, calls = [], warnings = []\<rparr>)))) = [2500, 2500, 1] \<and>
   length (replicate 5001 (ModAckRequest ''a'' 10)) = 5001 \<and>
   length (sent_requests (new_calls \<lparr>leaser_present = True, calls = [], warnings = []\<rparr>
      (snd (modify_ack_deadline (replicate 5001 (ModAckRequest ''a'' 10))
         \<lparr>leaser_present = True, calls = [], warnings = []\<rparr>)))) = 3 \<and>
   map (length \<circ> modify_deadline_ack_ids)
     (sent_requests (new_calls \<lparr>leaser_present = True, calls = [], warnings = []\<rparr>
        (snd (modify_ack_deadline (replicate 5001 (ModAckRequest ''a'' 10))
           \<lparr>leaser_present = True, calls = [], warnings = []\<rparr>)))) = [2500, 2500, 1]"
  using chunking_ack_and_modack
    [of "\<lparr>leaser_present = True, calls = [], warnings = []\<rparr>"
        "replicate 5001 (AckRequest ''a'' 10 None [])"
        "replicate 5001 (ModAckRequest ''a'' 10)"]
  by (simp add: Let_def)

section \<open>The handlers\<close>

lemma drop_items_eq:
  "drop_items items w =
     (if leaser_present w then (Returned, w\<lparr>calls := calls w @ drop_calls items\<rparr>)
      else (Raised AssertionError, w))"
  by (simp add: drop_items_def drop_calls_def record_call_def)

lemma lease_eq:
  "lease items w =
     (if leaser_present w then (Returned, w\<lparr>calls := calls w @ lease_calls items\<rparr>)
      else (Raised AssertionError, w))"
  by (simp add: lease_def lease_calls_def record_call_def)

lemma modify_ack_deadline_eq:
  "modify_ack_deadline items w = (Returned, w\<lparr>calls := calls w @ modack_calls items\<rparr>)"
  by (simp add: modify_ack_deadline_def modack_calls_def modack_loop_world)

lemma ack_eq:
  "ack items w =
     (if leaser_present w
      then (Returned, w\<lparr>calls := calls w @ ack_sends items @ drop_calls (map OfAck items)\<rparr>)
      else (Raised AssertionError, w\<lparr>calls := calls w @ ack_sends items\<rparr>))"
  by (simp add: ack_def drop_items_eq ack_sends_def ack_loop_world histogram_loop_world)

lemma nack_eq:
  "nack items w =
     (if leaser_present w
      then (Returned,
            w\<lparr>calls := calls w @ modack_calls (nack_mods items) @ drop_calls (nack_drops items)\<rparr>)
      else (Raised AssertionError, w\<lparr>calls := calls w @ modack_calls (nack_mods items)\<rparr>))"
proof -
  have "(\<lambda>item. case item of NackRequest a b k \<Rightarrow> OfDrop (DropRequest a b k))
        = (\<lambda>item. OfDrop (DropRequest (NackRequest.ack_id item)
                  (NackRequest.byte_size item) (NackRequest.ordering_key item)))"
    by (rule ext) (simp split: NackRequest.split)
  then show ?thesis
    by (simp add: nack_def and_then_def modify_ack_deadline_eq drop_items_eq
        nack_mods_def nack_drops_def)
qed

lemma drop_items_world:
  "leaser_present w \<Longrightarrow>
   drop_items items w =
     (Returned,
      w\<lparr>calls := calls w @
          [LeaserRemove items,
           ActivateOrderingKeys
             (map item_ordering_key (filter (\<lambda>k. item_ordering_key k \<noteq> []) items)),
           MaybeResumeConsumer]\<rparr>)"
  by (simp add: drop_items_def record_call_def)

lemma calls_of_drop_items:
  "leaser_present w \<Longrightarrow>
   calls_of (drop_items items) w =
     [LeaserRemove items,
      ActivateOrderingKeys
        (map item_ordering_key (filter (\<lambda>k. item_ordering_key k \<noteq> []) items)),
      MaybeResumeConsumer]"
  by (simp add: calls_of_def new_calls_def drop_items_world)

text \<open>
  C4, as the claim states it, fails: \<^verbatim>\<open>drop\<close> hands
  \<^verbatim>\<open>activate_ordering_keys\<close> a generator over the items, so a key that two
  items carry is passed twice.
\<close>

theorem drop_passes_duplicate_keys:
  "calls_of
     (drop_items [OfDrop (DropRequest ''a'' 1 ''k''), OfDrop (DropRequest ''b'' 1 ''k'')])
     \<lparr>leaser_present = True, calls = [], warnings = []\<rparr>
   = [LeaserRemove [OfDrop (DropRequest ''a'' 1 ''k''), OfDrop (DropRequest ''b'' 1 ''k'')],
      ActivateOrderingKeys [''k'', ''k''],
      MaybeResumeConsumer]
   \<and> \<not> distinct [''k'', ''k'']"
  by (simp add: calls_of_def new_calls_def drop_items_def record_call_def)

text \<open>
  C4, amended. For every list of items given to \<^verbatim>\<open>Dispatcher.drop\<close> while the
  manager has a leaser, the dispatcher removes all items from the lease tracker, then
  passes to \<^verbatim>\<open>activate_ordering_keys\<close> the non-empty ordering keys of the items
  in input order, one per item that carries one (so a key is repeated as often as items
  carry it, and the keys passed are, as a set, the non-empty ordering keys of the items),
  and then calls \<^verbatim>\<open>maybe_resume_consumer\<close>.
\<close>

theorem drop_sequence:
  assumes "leaser_present w"
  shows "drop_items items w =
     (Returned,
      w\<lparr>calls := calls w @
          [LeaserRemove items,
           ActivateOrderingKeys (filter (\<lambda>k. k \<noteq> []) (map item_ordering_key items)),
           MaybeResumeConsumer]\<rparr>)
     \<and> set (filter (\<lambda>k. k \<noteq> []) (map item_ordering_key items))
         = item_ordering_key ` set items - {[]}
     \<and> (\<forall>k. k \<noteq> [] \<longrightarrow>
           count_list (filter (\<lambda>k. k \<noteq> []) (map item_ordering_key items)) k
             = length (filter (\<lambda>item. item_ordering_key item = k) items))"
proof -
  have a: "map item_ordering_key (filter (\<lambda>k. item_ordering_key k \<noteq> []) items)
           = filter (\<lambda>k. k \<noteq> []) (map item_ordering_key items)"
    by (simp add: filter_map comp_def)
  have b: "set (filter (\<lambda>k. k \<noteq> []) (map item_ordering_key items))
         = item_ordering_key ` set items - {[]}"
    by auto
  have c: "k \<noteq> [] \<Longrightarrow>
           count_list (filter (\<lambda>k. k \<noteq> []) (map item_ordering_key items)) k
             = length (filter (\<lambda>item. item_ordering_key item = k) items)" for k
    by (induction items) auto
  show ?thesis using drop_items_world[OF assms, of items] a b c by simp
qed

theorem drop_sequence_witness:
  "leaser_present \<lparr>leaser_present = True, calls = [], warnings = []\<rparr> \<and>
   drop_items [OfAck (AckRequest ''a'' 1 (Some 2) ''k''), OfDrop (DropRequest ''b'' 1 []),
               OfNack (NackRequest ''c'' 1 ''k'')]
     \<lparr>leaser_present = True, calls = [], warnings = []\<rparr>
   = (Returned,
      \<lparr>leaser_present = True,
       calls = [LeaserRemove [OfAck (AckRequest ''a'' 1 (Some 2) ''k''),
                              OfDrop (DropRequest ''b'' 1 []),
                              OfNack (NackRequest ''c'' 1 ''k'')],
                ActivateOrderingKeys [''k'', ''k''],
                MaybeResumeConsumer],
       warnings = []\<rparr>)
   \<and> count_list [''k'', ''k''] ''k'' = 2"
  using drop_sequence
    [of "\<lparr>leaser_present = True, calls = [], warnings = []\<rparr>"
        "[OfAck (AckRequest ''a'' 1 (Some 2) ''k''), OfDrop (DropRequest ''b'' 1 []),
          OfNack (NackRequest ''c'' 1 ''k'')]"]
  by simp

text \<open>
  C5. For every list of \<^verbatim>\<open>AckRequest\<close> items given to \<^verbatim>\<open>Dispatcher.ack\<close>
  while the manager has a leaser, the calls are, in this order: one histogram add per
  item whose \<open>time_to_ack\<close> is not null, with that value, in input order; the
  acknowledge requests, all sent; and the drop handling of the same items, that is the
  lease removal, the reactivation of their ordering keys and the consumer-resume check.
  The requests sent are \<open>\<lceil>N / 2500\<rceil>\<close> in number, carry at most 2500 ack ids each and
  nothing else, and carry together the ack ids of the items in input order.
\<close>

theorem ack_sequence:
  assumes "leaser_present w"
  shows "ack items w =
     (Returned,
      w\<lparr>calls := calls w
          @ map HistogramAdd (List.map_filter time_to_ack items)
          @ map Send (sent_requests (calls_of (ack items) w))
          @ [LeaserRemove (map OfAck items),
             ActivateOrderingKeys
               (filter (\<lambda>k. k \<noteq> []) (map AckRequest.ordering_key items)),
             MaybeResumeConsumer]\<rparr>)
     \<and> length (sent_requests (calls_of (ack items) w)) = nat \<lceil>real (length items) / 2500\<rceil>
     \<and> (\<forall>r \<in> set (sent_requests (calls_of (ack items) w)).
           length (ack_ids r) \<le> 2500 \<and>
           modify_deadline_ack_ids r = [] \<and> modify_deadline_seconds r = [])
     \<and> concat (map ack_ids (sent_requests (calls_of (ack items) w)))
         = map AckRequest.ack_id items
     \<and> calls_of (drop_items (map OfAck items)) w =
         [LeaserRemove (map OfAck items),
          ActivateOrderingKeys
            (filter (\<lambda>k. k \<noteq> []) (map AckRequest.ordering_key items)),
          MaybeResumeConsumer]"
proof -
  let ?ids = "map AckRequest.ack_id items"
  let ?n = "total_chunks (length items)"
  have k: "map item_ordering_key (filter (\<lambda>k. item_ordering_key k \<noteq> []) (map OfAck items))
           = filter (\<lambda>k. k \<noteq> []) (map AckRequest.ordering_key items)"
    by (induction items) simp_all
  have s: "sent_requests (calls_of (ack items) w) = ack_chunks ?n ?ids"
    by (simp add: calls_of_def ack_sent)
  have first: "ack items w =
     (Returned,
      w\<lparr>calls := calls w
          @ map HistogramAdd (List.map_filter time_to_ack items)
          @ map Send (sent_requests (calls_of (ack items) w))
          @ [LeaserRemove (map OfAck items),
             ActivateOrderingKeys
               (filter (\<lambda>k. k \<noteq> []) (map AckRequest.ordering_key items)),
             MaybeResumeConsumer]\<rparr>)"
    using assms by (simp add: s ack_eq ack_sends_def drop_calls_def k)
  have n: "?n = nat \<lceil>real (length items) / 2500\<rceil>"
    by (simp add: total_chunks_def ACK_IDS_BATCH_SIZE_def)
  have count: "length (sent_requests (calls_of (ack items) w))
                 = nat \<lceil>real (length items) / 2500\<rceil>"
    unfolding s using n by (simp only: length_ack_chunks)
  have bound: "\<forall>r \<in> set (sent_requests (calls_of (ack items) w)).
           length (ack_ids r) \<le> 2500 \<and>
           modify_deadline_ack_ids r = [] \<and> modify_deadline_seconds r = []"
    unfolding s using ack_chunks_bounded by blast
  have cover: "concat (map ack_ids (sent_requests (calls_of (ack items) w))) = ?ids"
    unfolding s using chunks_cover[of "length items"] by (simp add: concat_ack_chunks)
  have last: "calls_of (drop_items (map OfAck items)) w =
         [LeaserRemove (map OfAck items),
          ActivateOrderingKeys
            (filter (\<lambda>k. k \<noteq> []) (map AckRequest.ordering_key items)),
          MaybeResumeConsumer]"
    using calls_of_drop_items[OF assms, of "map OfAck items"] by (simp only: k)
  from first count bound cover last show ?thesis by blast
qed

theorem ack_sequence_witness:
  "leaser_present \<lparr>leaser_present = True, calls = [], warnings = []\<rparr> \<and>
   ack [AckRequest ''a'' 10 (Some 3) [], AckRequest ''b'' 10 None ''k'']
     \<lparr>leaser_present = True, calls = [], warnings = []\<rparr>
   = (Returned,
      \<lparr>leaser_present = True,
       calls = [HistogramAdd 3,
                Send \<lparr>ack_ids = [''a'', ''b''], modify_deadline_ack_ids = [],
                      modify_deadline_seconds = []\<rparr>,
                LeaserRemove [OfAck (AckRequest ''a'' 10 (Some 3) []),
                              OfAck (AckRequest ''b'' 10 None ''k'')],
                ActivateOrderingKeys [''k''],
                MaybeResumeConsumer],
       warnings = []\<rparr>)"
proof -
  let ?w = "\<lparr>leaser_present = True, calls = [], warnings = []\<rparr>"
  let ?items = "[AckRequest ''a'' 10 (Some 3) [], AckRequest ''b'' 10 None ''k'']"
  have p: "leaser_present ?w" by simp
  note inst = ack_sequence[OF p, of ?items]
  have two: "total_chunks (Suc (Suc 0)) = Suc 0" by (simp add: total_chunks_div)
  have sent: "sent_requests (calls_of (ack ?items) ?w)
        = [\<lparr>ack_ids = [''a'', ''b''], modify_deadline_ack_ids = [],
            modify_deadline_seconds = []\<rparr>]"
    by (simp add: calls_of_def ack_sent two ACK_IDS_BATCH_SIZE_def)
  from inst have "ack ?items ?w =
     (Returned,
      ?w\<lparr>calls := calls ?w
          @ map HistogramAdd (List.map_filter time_to_ack ?items)
          @ map Send (sent_requests (calls_of (ack ?items) ?w))
          @ [LeaserRemove (map OfAck ?items),
             ActivateOrderingKeys
               (filter (\<lambda>k. k \<noteq> []) (map AckRequest.ordering_key ?items)),
             MaybeResumeConsumer]\<rparr>)"
    by blast
  then show ?thesis by (simp add: sent)
qed


section \<open>Dispatching a batch\<close>

lemma classify_all_eq:
  "classify_all items (b, w) =
     (b\<lparr>lease_requests := lease_requests b @ leases_in items,
        modack_requests := modack_requests b @ modacks_in items,
        ack_requests := ack_requests b @ acks_in items,
        nack_requests := nack_requests b @ nacks_in items,
        drop_requests := drop_requests b @ drops_in items\<rparr>,
      w\<lparr>warnings := warnings w @ map unknown_warning (unrecognized_in items)\<rparr>)"
proof (induction items arbitrary: b w)
  case Nil
  show ?case by simp
next
  case (Cons item items)
  show ?case by (cases item) (simp_all add: Cons warn_def)
qed

lemma classify_all_buckets:
  "classify_all items (no_buckets, w) =
     (\<lparr>lease_requests = leases_in items, modack_requests = modacks_in items,
       ack_requests = acks_in items, nack_requests = nacks_in items,
       drop_requests = drops_in items\<rparr>,
      w\<lparr>warnings := warnings w @ map unknown_warning (unrecognized_in items)\<rparr>)"
  by (simp add: classify_all_eq no_buckets_def)

lemma dispatch_callback_present:
  assumes "leaser_present w"
  shows "dispatch_callback items w =
     (Returned,
      w\<lparr>calls := calls w
           @ bucket_calls (leases_in items) lease_calls
           @ bucket_calls (modacks_in items) modack_calls
           @ bucket_calls (acks_in items) (\<lambda>xs. ack_sends xs @ drop_calls (map OfAck xs))
           @ bucket_calls (nacks_in items)
               (\<lambda>xs. modack_calls (nack_mods xs) @ drop_calls (nack_drops xs))
           @ bucket_calls (drops_in items) (\<lambda>xs. drop_calls (map OfDrop xs)),
         warnings := warnings w @ map unknown_warning (unrecognized_in items)\<rparr>)"
  using assms
  by (simp add: dispatch_callback_def classify_all_buckets and_then_def when_nonempty_def
      lease_eq modify_ack_deadline_eq ack_eq nack_eq drop_items_eq bucket_calls_def)

lemma dispatch_callback_absent:
  assumes "\<not> leaser_present w"
  shows "dispatch_callback items w =
     (if leases_in items \<noteq> [] then
        (Raised AssertionError,
         w\<lparr>warnings := warnings w @ map unknown_warning (unrecognized_in items)\<rparr>)
      else if acks_in items \<noteq> [] then
        (Raised AssertionError,
         w\<lparr>calls := calls w @ bucket_calls (modacks_in items) modack_calls
                      @ ack_sends (acks_in items),
           warnings := warnings w @ map unknown_warning (unrecognized_in items)\<rparr>)
      else if nacks_in items \<noteq> [] then
        (Raised AssertionError,
         w\<lparr>calls := calls w @ bucket_calls (modacks_in items) modack_calls
                      @ modack_calls (nack_mods (nacks_in items)),
           warnings := warnings w @ map unknown_warning (unrecognized_in items)\<rparr>)
      else if drops_in items \<noteq> [] then
        (Raised AssertionError,
         w\<lparr>calls := calls w @ bucket_calls (modacks_in items) modack_calls,
           warnings := warnings w @ map unknown_warning (unrecognized_in items)\<rparr>)
      else
        (Returned,
         w\<lparr>calls := calls w @ bucket_calls (modacks_in items) modack_calls,
           warnings := warnings w @ map unknown_warning (unrecognized_in items)\<rparr>))"
  using assms
  by (simp add: dispatch_callback_def classify_all_buckets and_then_def when_nonempty_def
      lease_eq modify_ack_deadline_eq ack_eq nack_eq drop_items_eq bucket_calls_def)


lemma modack_calls_quiet: "c \<in> set (modack_calls items) \<Longrightarrow> is_send_or_sample c"
  by (auto simp: modack_calls_def)

lemma ack_sends_quiet: "c \<in> set (ack_sends items) \<Longrightarrow> is_send_or_sample c"
  by (auto simp: ack_sends_def)

lemma bucket_calls_cases:
  "bucket_calls xs f = (if xs = [] then [] else f xs)"
  by (simp add: bucket_calls_def)

lemma calls_of_handlers:
  assumes "leaser_present w"
  shows "calls_of (lease ls) w = lease_calls ls"
    and "calls_of (modify_ack_deadline ms) w = modack_calls ms"
    and "calls_of (ack as) w = ack_sends as @ drop_calls (map OfAck as)"
    and "calls_of (nack ns) w = modack_calls (nack_mods ns) @ drop_calls (nack_drops ns)"
    and "calls_of (drop_items ds) w = drop_calls ds"
  using assms
  by (simp_all add: calls_of_def new_calls_def lease_eq modify_ack_deadline_eq ack_eq nack_eq
      drop_items_eq)

lemma calls_of_dispatch_present:
  assumes "leaser_present w"
  shows "calls_of (dispatch_callback items) w =
             bucket_calls (leases_in items) lease_calls
           @ bucket_calls (modacks_in items) modack_calls
           @ bucket_calls (acks_in items) (\<lambda>xs. ack_sends xs @ drop_calls (map OfAck xs))
           @ bucket_calls (nacks_in items)
               (\<lambda>xs. modack_calls (nack_mods xs) @ drop_calls (nack_drops xs))
           @ bucket_calls (drops_in items) (\<lambda>xs. drop_calls (map OfDrop xs))"
  by (simp add: calls_of_def new_calls_def dispatch_callback_present[OF assms])

lemma calls_of_dispatch_absent:
  assumes "\<not> leaser_present w"
  shows "calls_of (dispatch_callback items) w =
     (if leases_in items \<noteq> [] then []
      else bucket_calls (modacks_in items) modack_calls
           @ (if acks_in items \<noteq> [] then ack_sends (acks_in items)
              else if nacks_in items \<noteq> [] then modack_calls (nack_mods (nacks_in items))
              else []))"
  by (simp add: calls_of_def new_calls_def dispatch_callback_absent[OF assms])

lemma absent_quiet:
  assumes "\<not> leaser_present w" and "c \<in> set (calls_of (dispatch_callback items) w)"
  shows "is_send_or_sample c"
  using assms(2) unfolding calls_of_dispatch_absent[OF assms(1)]
  by (auto simp: bucket_calls_def split: if_splits
      dest: modack_calls_quiet ack_sends_quiet)

lemma rest_no_add:
  assumes "c \<in> set (bucket_calls ms modack_calls
           @ bucket_calls as (\<lambda>xs. ack_sends xs @ drop_calls (map OfAck xs))
           @ bucket_calls ns
               (\<lambda>xs. modack_calls (nack_mods xs) @ drop_calls (nack_drops xs))
           @ bucket_calls ds (\<lambda>xs. drop_calls (map OfDrop xs)))"
  shows "c \<noteq> LeaserAdd xs \<and> c \<noteq> MaybePauseConsumer"
  using assms
  by (auto simp: bucket_calls_def drop_calls_def split: if_splits
      dest: modack_calls_quiet ack_sends_quiet)

lemma add_before_remove:
  assumes R: "\<And>c xs. c \<in> set R \<Longrightarrow> c \<noteq> LeaserAdd xs"
    and t: "t = R \<or> t = LeaserAdd L # MaybePauseConsumer # R"
    and i: "i < length t" and j: "j < length t"
    and ti: "t ! i = LeaserAdd xs" and tj: "t ! j = LeaserRemove ys"
  shows "i < j"
proof -
  from t show ?thesis
  proof
    assume "t = R"
    with i ti have "LeaserAdd xs \<in> set R" by (metis nth_mem)
    with R show ?thesis by blast
  next
    assume eq: "t = LeaserAdd L # MaybePauseConsumer # R"
    have "i = 0"
    proof (rule ccontr)
      assume "i \<noteq> 0"
      then obtain k where k: "i = Suc k" by (cases i) auto
      show False
      proof (cases k)
        case 0
        with k eq ti show False by simp
      next
        case (Suc m)
        with k eq ti i have "R ! m = LeaserAdd xs" "m < length R" by simp_all
        then have "LeaserAdd xs \<in> set R" by (metis nth_mem)
        with R show False by blast
      qed
    qed
    moreover have "j \<noteq> 0" using eq tj by (cases j) auto
    ultimately show ?thesis by simp
  qed
qed

lemma selections_of_recognized:
  "leases_in (filter recognized items) = leases_in items"
  "modacks_in (filter recognized items) = modacks_in items"
  "acks_in (filter recognized items) = acks_in items"
  "nacks_in (filter recognized items) = nacks_in items"
  "drops_in (filter recognized items) = drops_in items"
  "unrecognized_in (filter recognized items) = []"
proof (induction items)
  case Nil
  {
    case 1 show ?case by simp
  next
    case 2 show ?case by simp
  next
    case 3 show ?case by simp
  next
    case 4 show ?case by simp
  next
    case 5 show ?case by simp
  next
    case 6 show ?case by simp
  }
next
  case (Cons item items)
  {
    case 1 show ?case using Cons.IH(1) by (cases item) simp_all
  next
    case 2 show ?case using Cons.IH(2) by (cases item) simp_all
  next
    case 3 show ?case using Cons.IH(3) by (cases item) simp_all
  next
    case 4 show ?case using Cons.IH(4) by (cases item) simp_all
  next
    case 5 show ?case using Cons.IH(5) by (cases item) simp_all
  next
    case 6 show ?case using Cons.IH(6) by (cases item) simp_all
  }
qed

lemma nothing_recognized:
  assumes "\<forall>item \<in> set items. \<not> recognized item"
  shows "leases_in items = []" "modacks_in items = []" "acks_in items = []"
    "nacks_in items = []" "drops_in items = []"
proof -
  have "filter recognized items = []" using assms by (simp add: filter_empty_conv)
  then show "leases_in items = []" "modacks_in items = []" "acks_in items = []"
    "nacks_in items = []" "drops_in items = []"
    using selections_of_recognized[of items] by simp_all
qed

text \<open>
  C1. For every batch passed to \<^verbatim>\<open>dispatch_callback\<close>, the classification
  loop leaves in each of the five buckets the items of that variant in their input
  order. With the manager's leaser set, the call returns and its calls are those of
  \<^verbatim>\<open>lease\<close>, \<^verbatim>\<open>modify_ack_deadline\<close>, \<^verbatim>\<open>ack\<close>,
  \<^verbatim>\<open>nack\<close> and \<^verbatim>\<open>drop\<close> on their buckets, in this order, a handler
  with an empty bucket contributing none; a lease request of the batch is in the one
  leaser add call, which is the first call. In every case a leaser add call comes before
  any leaser remove call of the same batch.
\<close>

theorem dispatch_order:
  "classify_all items (no_buckets, w) =
     (\<lparr>lease_requests = leases_in items, modack_requests = modacks_in items,
       ack_requests = acks_in items, nack_requests = nacks_in items,
       drop_requests = drops_in items\<rparr>,
      w\<lparr>warnings := warnings w @ map unknown_warning (unrecognized_in items)\<rparr>)
   \<and> (leaser_present w \<longrightarrow>
        fst (dispatch_callback items w) = Returned \<and>
        calls_of (dispatch_callback items) w =
            (if leases_in items = [] then [] else calls_of (lease (leases_in items)) w)
          @ (if modacks_in items = [] then []
             else calls_of (modify_ack_deadline (modacks_in items)) w)
          @ (if acks_in items = [] then [] else calls_of (ack (acks_in items)) w)
          @ (if nacks_in items = [] then [] else calls_of (nack (nacks_in items)) w)
          @ (if drops_in items = [] then []
             else calls_of (drop_items (map OfDrop (drops_in items))) w) \<and>
        (\<forall>r. Lease r \<in> set items \<longrightarrow>
           r \<in> set (leases_in items) \<and>
           calls_of (dispatch_callback items) w ! 0 = LeaserAdd (leases_in items)))
   \<and> (\<forall>i j xs ys.
         i < length (calls_of (dispatch_callback items) w) \<and>
         j < length (calls_of (dispatch_callback items) w) \<and>
         calls_of (dispatch_callback items) w ! i = LeaserAdd xs \<and>
         calls_of (dispatch_callback items) w ! j = LeaserRemove ys
         \<longrightarrow> i < j)"
proof (intro conjI impI allI)
  show "classify_all items (no_buckets, w) =
     (\<lparr>lease_requests = leases_in items, modack_requests = modacks_in items,
       ack_requests = acks_in items, nack_requests = nacks_in items,
       drop_requests = drops_in items\<rparr>,
      w\<lparr>warnings := warnings w @ map unknown_warning (unrecognized_in items)\<rparr>)"
    by (rule classify_all_buckets)
next
  assume p: "leaser_present w"
  show "fst (dispatch_callback items w) = Returned"
    by (simp add: dispatch_callback_present[OF p])
  show "calls_of (dispatch_callback items) w =
            (if leases_in items = [] then [] else calls_of (lease (leases_in items)) w)
          @ (if modacks_in items = [] then []
             else calls_of (modify_ack_deadline (modacks_in items)) w)
          @ (if acks_in items = [] then [] else calls_of (ack (acks_in items)) w)
          @ (if nacks_in items = [] then [] else calls_of (nack (nacks_in items)) w)
          @ (if drops_in items = [] then []
             else calls_of (drop_items (map OfDrop (drops_in items))) w)"
    unfolding calls_of_handlers[OF p] calls_of_dispatch_present[OF p] bucket_calls_cases
    by (rule refl)
next
  fix r
  assume p: "leaser_present w" and r: "Lease r \<in> set items"
  show mem: "r \<in> set (leases_in items)"
    using r by (induction items rule: leases_in.induct) auto
  then have "leases_in items \<noteq> []" by auto
  then show "calls_of (dispatch_callback items) w ! 0 = LeaserAdd (leases_in items)"
    by (simp add: calls_of_dispatch_present[OF p] bucket_calls_def lease_calls_def)
next
  fix i j xs ys
  let ?t = "calls_of (dispatch_callback items) w"
  assume a: "i < length ?t \<and> j < length ?t \<and> ?t ! i = LeaserAdd xs \<and> ?t ! j = LeaserRemove ys"
  show "i < j"
  proof (cases "leaser_present w")
    case False
    from a have "?t ! i \<in> set ?t" by (metis nth_mem)
    then have "is_send_or_sample (?t ! i)" by (rule absent_quiet[OF False])
    with a show ?thesis by simp
  next
    case True
    let ?R = "bucket_calls (modacks_in items) modack_calls
           @ bucket_calls (acks_in items) (\<lambda>xs. ack_sends xs @ drop_calls (map OfAck xs))
           @ bucket_calls (nacks_in items)
               (\<lambda>xs. modack_calls (nack_mods xs) @ drop_calls (nack_drops xs))
           @ bucket_calls (drops_in items) (\<lambda>xs. drop_calls (map OfDrop xs))"
    have t: "?t = ?R \<or> ?t = LeaserAdd (leases_in items) # MaybePauseConsumer # ?R"
      by (simp add: calls_of_dispatch_present[OF True] bucket_calls_def[of "leases_in items"]
          lease_calls_def)
    have R: "\<And>c xs. c \<in> set ?R \<Longrightarrow> c \<noteq> LeaserAdd xs" using rest_no_add by blast
    from a show ?thesis using add_before_remove[OF R t] by blast
  qed
qed


theorem dispatch_order_witness:
  "leaser_present \<lparr>leaser_present = True, calls = [], warnings = []\<rparr> \<and>
   Lease (LeaseRequest ''a'' 10 [])
     \<in> set [Ack (AckRequest ''a'' 10 (Some 3) []), Lease (LeaseRequest ''a'' 10 [])] \<and>
   calls_of
     (dispatch_callback [Ack (AckRequest ''a'' 10 (Some 3) []), Lease (LeaseRequest ''a'' 10 [])])
     \<lparr>leaser_present = True, calls = [], warnings = []\<rparr>
   = [LeaserAdd [LeaseRequest ''a'' 10 []],
      MaybePauseConsumer,
      HistogramAdd 3,
      Send \<lparr>ack_ids = [''a''], modify_deadline_ack_ids = [], modify_deadline_seconds = []\<rparr>,
      LeaserRemove [OfAck (AckRequest ''a'' 10 (Some 3) [])],
      ActivateOrderingKeys [],
      MaybeResumeConsumer] \<and>
   (0::nat) < 4"
proof -
  let ?w = "\<lparr>leaser_present = True, calls = [], warnings = []\<rparr>"
  let ?items = "[Ack (AckRequest ''a'' 10 (Some 3) []), Lease (LeaseRequest ''a'' 10 [])]"
  let ?t = "calls_of (dispatch_callback ?items) ?w"
  note inst = dispatch_order[of ?items ?w]
  have p: "leaser_present ?w" by simp
  have one: "total_chunks (Suc 0) = Suc 0" by (simp add: total_chunks_div)
  from inst p have
    "?t = (if leases_in ?items = [] then [] else calls_of (lease (leases_in ?items)) ?w)
          @ (if modacks_in ?items = [] then []
             else calls_of (modify_ack_deadline (modacks_in ?items)) ?w)
          @ (if acks_in ?items = [] then [] else calls_of (ack (acks_in ?items)) ?w)
          @ (if nacks_in ?items = [] then [] else calls_of (nack (nacks_in ?items)) ?w)
          @ (if drops_in ?items = [] then []
             else calls_of (drop_items (map OfDrop (drops_in ?items))) ?w)"
    by blast
  then have t: "?t = [LeaserAdd [LeaseRequest ''a'' 10 []],
      MaybePauseConsumer,
      HistogramAdd 3,
      Send \<lparr>ack_ids = [''a''], modify_deadline_ack_ids = [], modify_deadline_seconds = []\<rparr>,
      LeaserRemove [OfAck (AckRequest ''a'' 10 (Some 3) [])],
      ActivateOrderingKeys [],
      MaybeResumeConsumer]"
    by (simp add: calls_of_handlers lease_calls_def ack_sends_def drop_calls_def one
        ACK_IDS_BATCH_SIZE_def)
  from inst have ord: "\<forall>i j xs ys.
         i < length ?t \<and> j < length ?t \<and> ?t ! i = LeaserAdd xs \<and> ?t ! j = LeaserRemove ys
         \<longrightarrow> i < j"
    by blast
  have "0 < length ?t \<and> 4 < length ?t \<and> ?t ! 0 = LeaserAdd [LeaseRequest ''a'' 10 []]
        \<and> ?t ! 4 = LeaserRemove [OfAck (AckRequest ''a'' 10 (Some 3) [])]"
    by (simp add: t)
  with ord have "(0::nat) < 4" by blast
  with p t show ?thesis by simp
qed

lemma selections_members:
  "(Lease l \<in> set items) = (l \<in> set (leases_in items))"
  "(ModAck m \<in> set items) = (m \<in> set (modacks_in items))"
  "(Ack a \<in> set items) = (a \<in> set (acks_in items))"
  "(Nack n \<in> set items) = (n \<in> set (nacks_in items))"
  "(Drop d \<in> set items) = (d \<in> set (drops_in items))"
proof -
  show "(Lease l \<in> set items) = (l \<in> set (leases_in items))"
    by (induction items rule: leases_in.induct) auto
  show "(ModAck m \<in> set items) = (m \<in> set (modacks_in items))"
    by (induction items rule: modacks_in.induct) auto
  show "(Ack a \<in> set items) = (a \<in> set (acks_in items))"
    by (induction items rule: acks_in.induct) auto
  show "(Nack n \<in> set items) = (n \<in> set (nacks_in items))"
    by (induction items rule: nacks_in.induct) auto
  show "(Drop d \<in> set items) = (d \<in> set (drops_in items))"
    by (induction items rule: drops_in.induct) auto
qed

text \<open>
  C7. For every batch, \<^verbatim>\<open>dispatch_callback\<close> has the outcome and makes the
  calls that it has and makes on the batch without its unrecognized items; these items
  only add one warning each, and the recognized items alone produce no warning. Every
  recognized item of the batch is in the bucket of its kind. With the leaser set the call
  returns and its calls are those of \<^verbatim>\<open>lease\<close>,
  \<^verbatim>\<open>modify_ack_deadline\<close>, \<^verbatim>\<open>ack\<close>, \<^verbatim>\<open>nack\<close> and
  \<^verbatim>\<open>drop\<close> on these buckets, whatever unrecognized items the batch holds; a
  batch of one unknown item and one \<^verbatim>\<open>DropRequest\<close> performs the drop
  handling.
\<close>

theorem unknown_items_skipped:
  "dispatch_callback items w =
     (case dispatch_callback (filter recognized items) w of
        (out, w') \<Rightarrow>
          (out, w'\<lparr>warnings := warnings w @ map unknown_warning (unrecognized_in items)\<rparr>))
   \<and> warnings (snd (dispatch_callback (filter recognized items) w)) = warnings w
   \<and> (Lease l \<in> set items) = (l \<in> set (leases_in items))
   \<and> (ModAck m \<in> set items) = (m \<in> set (modacks_in items))
   \<and> (Ack a \<in> set items) = (a \<in> set (acks_in items))
   \<and> (Nack n \<in> set items) = (n \<in> set (nacks_in items))
   \<and> (Drop d \<in> set items) = (d \<in> set (drops_in items))
   \<and> (leaser_present w \<longrightarrow>
        fst (dispatch_callback items w) = Returned \<and>
        calls_of (dispatch_callback items) w =
            (if leases_in items = [] then [] else calls_of (lease (leases_in items)) w)
          @ (if modacks_in items = [] then []
             else calls_of (modify_ack_deadline (modacks_in items)) w)
          @ (if acks_in items = [] then [] else calls_of (ack (acks_in items)) w)
          @ (if nacks_in items = [] then [] else calls_of (nack (nacks_in items)) w)
          @ (if drops_in items = [] then []
             else calls_of (drop_items (map OfDrop (drops_in items))) w) \<and>
        dispatch_callback [Unrecognized ty, Drop d'] w =
          (Returned,
           w\<lparr>calls := calls w @
                [LeaserRemove [OfDrop d'],
                 ActivateOrderingKeys
                   (if DropRequest.ordering_key d' = [] then []
                    else [DropRequest.ordering_key d']),
                 MaybeResumeConsumer],
             warnings := warnings w @ [unknown_warning ty]\<rparr>))"
proof -
  have a: "dispatch_callback items w =
     (case dispatch_callback (filter recognized items) w of
        (out, w') \<Rightarrow>
          (out, w'\<lparr>warnings := warnings w @ map unknown_warning (unrecognized_in items)\<rparr>))
   \<and> warnings (snd (dispatch_callback (filter recognized items) w)) = warnings w"
  proof (cases "leaser_present w")
    case True
    then show ?thesis
      by (simp add: dispatch_callback_present selections_of_recognized)
  next
    case False
    then show ?thesis
      by (simp add: dispatch_callback_absent selections_of_recognized)
  qed
  have b: "leaser_present w \<longrightarrow>
        fst (dispatch_callback items w) = Returned \<and>
        calls_of (dispatch_callback items) w =
            (if leases_in items = [] then [] else calls_of (lease (leases_in items)) w)
          @ (if modacks_in items = [] then []
             else calls_of (modify_ack_deadline (modacks_in items)) w)
          @ (if acks_in items = [] then [] else calls_of (ack (acks_in items)) w)
          @ (if nacks_in items = [] then [] else calls_of (nack (nacks_in items)) w)
          @ (if drops_in items = [] then []
             else calls_of (drop_items (map OfDrop (drops_in items))) w) \<and>
        dispatch_callback [Unrecognized ty, Drop d'] w =
          (Returned,
           w\<lparr>calls := calls w @
                [LeaserRemove [OfDrop d'],
                 ActivateOrderingKeys
                   (if DropRequest.ordering_key d' = [] then []
                    else [DropRequest.ordering_key d']),
                 MaybeResumeConsumer],
             warnings := warnings w @ [unknown_warning ty]\<rparr>)"
  proof
    assume p: "leaser_present w"
    have r: "fst (dispatch_callback items w) = Returned"
      by (simp add: dispatch_callback_present[OF p])
    have c: "calls_of (dispatch_callback items) w =
            (if leases_in items = [] then [] else calls_of (lease (leases_in items)) w)
          @ (if modacks_in items = [] then []
             else calls_of (modify_ack_deadline (modacks_in items)) w)
          @ (if acks_in items = [] then [] else calls_of (ack (acks_in items)) w)
          @ (if nacks_in items = [] then [] else calls_of (nack (nacks_in items)) w)
          @ (if drops_in items = [] then []
             else calls_of (drop_items (map OfDrop (drops_in items))) w)"
      unfolding calls_of_handlers[OF p] calls_of_dispatch_present[OF p] bucket_calls_cases
      by (rule refl)
    have e: "dispatch_callback [Unrecognized ty, Drop d'] w =
          (Returned,
           w\<lparr>calls := calls w @
                [LeaserRemove [OfDrop d'],
                 ActivateOrderingKeys
                   (if DropRequest.ordering_key d' = [] then []
                    else [DropRequest.ordering_key d']),
                 MaybeResumeConsumer],
             warnings := warnings w @ [unknown_warning ty]\<rparr>)"
      by (simp add: dispatch_callback_present[OF p] bucket_calls_def drop_calls_def)
    from r c e show "fst (dispatch_callback items w) = Returned \<and>
        calls_of (dispatch_callback items) w =
            (if leases_in items = [] then [] else calls_of (lease (leases_in items)) w)
          @ (if modacks_in items = [] then []
             else calls_of (modify_ack_deadline (modacks_in items)) w)
          @ (if acks_in items = [] then [] else calls_of (ack (acks_in items)) w)
          @ (if nacks_in items = [] then [] else calls_of (nack (nacks_in items)) w)
          @ (if drops_in items = [] then []
             else calls_of (drop_items (map OfDrop (drops_in items))) w) \<and>
        dispatch_callback [Unrecognized ty, Drop d'] w =
          (Returned,
           w\<lparr>calls := calls w @
                [LeaserRemove [OfDrop d'],
                 ActivateOrderingKeys
                   (if DropRequest.ordering_key d' = [] then []
                    else [DropRequest.ordering_key d']),
                 MaybeResumeConsumer],
             warnings := warnings w @ [unknown_warning ty]\<rparr>)"
      by (intro conjI)
  qed
  from a b selections_members[of _ items] show ?thesis by (intro conjI) blast+
qed

theorem unknown_items_skipped_witness:
  "leaser_present \<lparr>leaser_present = True, calls = [], warnings = []\<rparr> \<and>
   dispatch_callback [Unrecognized ''<class 'int'>'', Drop (DropRequest ''a'' 10 ''k'')]
     \<lparr>leaser_present = True, calls = [], warnings = []\<rparr>
   = (Returned,
      \<lparr>leaser_present = True,
       calls = [LeaserRemove [OfDrop (DropRequest ''a'' 10 ''k'')],
                ActivateOrderingKeys [''k''],
                MaybeResumeConsumer],
       warnings = [''Skipping unknown request item of type \"<class 'int'>\"'']\<rparr>) \<and>
   calls_of
     (dispatch_callback
        [Drop (DropRequest ''a'' 10 ''k''), Unrecognized ''<class 'int'>'',
         Lease (LeaseRequest ''a'' 10 ''k'')])
     \<lparr>leaser_present = True, calls = [], warnings = []\<rparr>
   = [LeaserAdd [LeaseRequest ''a'' 10 ''k''],
      MaybePauseConsumer,
      LeaserRemove [OfDrop (DropRequest ''a'' 10 ''k'')],
      ActivateOrderingKeys [''k''],
      MaybeResumeConsumer]"
proof -
  let ?w = "\<lparr>leaser_present = True, calls = [], warnings = []\<rparr>"
  let ?d = "DropRequest ''a'' 10 ''k''"
  let ?l = "LeaseRequest ''a'' 10 ''k''"
  let ?items = "[Drop ?d, Unrecognized ''<class 'int'>'', Lease ?l]"
  have p: "leaser_present ?w" by simp
  note inst = unknown_items_skipped[of ?items ?w _ _ _ _ _ "''<class 'int'>''" ?d]
  from inst p have
    "dispatch_callback [Unrecognized ''<class 'int'>'', Drop ?d] ?w =
          (Returned,
           ?w\<lparr>calls := calls ?w @
                [LeaserRemove [OfDrop ?d],
                 ActivateOrderingKeys
                   (if DropRequest.ordering_key ?d = [] then []
                    else [DropRequest.ordering_key ?d]),
                 MaybeResumeConsumer],
             warnings := warnings ?w @ [unknown_warning ''<class 'int'>'']\<rparr>)"
    by blast
  then have a: "dispatch_callback [Unrecognized ''<class 'int'>'', Drop ?d] ?w
   = (Returned,
      \<lparr>leaser_present = True,
       calls = [LeaserRemove [OfDrop ?d], ActivateOrderingKeys [''k''], MaybeResumeConsumer],
       warnings = [''Skipping unknown request item of type \"<class 'int'>\"'']\<rparr>)"
    by (simp add: unknown_warning_def)
  from inst p have
    "calls_of (dispatch_callback ?items) ?w =
            (if leases_in ?items = [] then [] else calls_of (lease (leases_in ?items)) ?w)
          @ (if modacks_in ?items = [] then []
             else calls_of (modify_ack_deadline (modacks_in ?items)) ?w)
          @ (if acks_in ?items = [] then [] else calls_of (ack (acks_in ?items)) ?w)
          @ (if nacks_in ?items = [] then [] else calls_of (nack (nacks_in ?items)) ?w)
          @ (if drops_in ?items = [] then []
             else calls_of (drop_items (map OfDrop (drops_in ?items))) ?w)"
    by blast
  then have b: "calls_of (dispatch_callback ?items) ?w
   = [LeaserAdd [?l], MaybePauseConsumer,
      LeaserRemove [OfDrop ?d], ActivateOrderingKeys [''k''], MaybeResumeConsumer]"
    by (simp add: calls_of_handlers lease_calls_def drop_calls_def)
  from p a b show ?thesis by blast
qed

text \<open>
  C10. A batch without recognized items returns without any call to the leaser or the
  manager. No batch makes the dispatcher call the leaser's add or remove with an empty
  collection. Without lease requests in the batch there is no leaser add and no
  consumer-pause check; without ack, nack and drop requests there is no leaser remove, no
  ordering-key reactivation and no consumer-resume check.
\<close>

theorem handlers_only_for_nonempty_buckets:
  "((\<forall>item \<in> set items. \<not> recognized item) \<longrightarrow>
      fst (dispatch_callback items w) = Returned \<and>
      calls (snd (dispatch_callback items w)) = calls w)
   \<and> (\<forall>c \<in> set (calls_of (dispatch_callback items) w).
        c \<noteq> LeaserAdd [] \<and> c \<noteq> LeaserRemove [])
   \<and> (leases_in items = [] \<longrightarrow>
        (\<forall>c \<in> set (calls_of (dispatch_callback items) w).
           c \<noteq> MaybePauseConsumer \<and> (\<forall>xs. c \<noteq> LeaserAdd xs)))
   \<and> (acks_in items = [] \<and> nacks_in items = [] \<and> drops_in items = [] \<longrightarrow>
        (\<forall>c \<in> set (calls_of (dispatch_callback items) w).
           c \<noteq> MaybeResumeConsumer \<and> (\<forall>xs. c \<noteq> LeaserRemove xs) \<and>
           (\<forall>ks. c \<noteq> ActivateOrderingKeys ks)))"
proof (cases "leaser_present w")
  case False
  have q: "\<And>c. c \<in> set (calls_of (dispatch_callback items) w) \<Longrightarrow> is_send_or_sample c"
    by (rule absent_quiet[OF False])
  have a: "(\<forall>item \<in> set items. \<not> recognized item) \<longrightarrow>
      fst (dispatch_callback items w) = Returned \<and>
      calls (snd (dispatch_callback items w)) = calls w"
    by (auto simp: dispatch_callback_absent[OF False] nothing_recognized bucket_calls_def)
  have b: "\<forall>c \<in> set (calls_of (dispatch_callback items) w).
        c \<noteq> LeaserAdd [] \<and> c \<noteq> LeaserRemove []"
    using q by fastforce
  have c: "\<forall>c \<in> set (calls_of (dispatch_callback items) w).
           c \<noteq> MaybePauseConsumer \<and> (\<forall>xs. c \<noteq> LeaserAdd xs)"
    using q by fastforce
  have d: "\<forall>c \<in> set (calls_of (dispatch_callback items) w).
           c \<noteq> MaybeResumeConsumer \<and> (\<forall>xs. c \<noteq> LeaserRemove xs) \<and>
           (\<forall>ks. c \<noteq> ActivateOrderingKeys ks)"
    using q by fastforce
  from a b c d show ?thesis by blast
next
  case True
  note t = calls_of_dispatch_present[OF True]
  have a: "(\<forall>item \<in> set items. \<not> recognized item) \<longrightarrow>
      fst (dispatch_callback items w) = Returned \<and>
      calls (snd (dispatch_callback items w)) = calls w"
    by (auto simp: dispatch_callback_present[OF True] nothing_recognized bucket_calls_def)
  have b: "\<forall>c \<in> set (calls_of (dispatch_callback items) w).
        c \<noteq> LeaserAdd [] \<and> c \<noteq> LeaserRemove []"
    unfolding t
    by (auto simp: bucket_calls_def lease_calls_def drop_calls_def nack_drops_def
        split: if_splits dest: modack_calls_quiet ack_sends_quiet)
  have c: "leases_in items = [] \<longrightarrow>
        (\<forall>c \<in> set (calls_of (dispatch_callback items) w).
           c \<noteq> MaybePauseConsumer \<and> (\<forall>xs. c \<noteq> LeaserAdd xs))"
  proof
    assume e: "leases_in items = []"
    show "\<forall>c \<in> set (calls_of (dispatch_callback items) w).
           c \<noteq> MaybePauseConsumer \<and> (\<forall>xs. c \<noteq> LeaserAdd xs)"
      unfolding t e using rest_no_add by (simp add: bucket_calls_def)
  qed
  have d: "acks_in items = [] \<and> nacks_in items = [] \<and> drops_in items = [] \<longrightarrow>
        (\<forall>c \<in> set (calls_of (dispatch_callback items) w).
           c \<noteq> MaybeResumeConsumer \<and> (\<forall>xs. c \<noteq> LeaserRemove xs) \<and>
           (\<forall>ks. c \<noteq> ActivateOrderingKeys ks))"
    unfolding t
    by (auto simp: bucket_calls_def lease_calls_def split: if_splits dest: modack_calls_quiet)
  from a b c d show ?thesis by blast
qed

theorem handlers_only_for_nonempty_buckets_witness:
  "\<not> recognized (Unrecognized ''str'') \<and>
   dispatch_callback [Unrecognized ''str''] \<lparr>leaser_present = True, calls = [], warnings = []\<rparr>
     = (Returned,
        \<lparr>leaser_present = True, calls = [],
         warnings = [unknown_warning ''str'']\<rparr>) \<and>
   leases_in [ModAck (ModAckRequest ''a'' 10)] = [] \<and>
   acks_in [ModAck (ModAckRequest ''a'' 10)] = [] \<and>
   nacks_in [ModAck (ModAckRequest ''a'' 10)] = [] \<and>
   drops_in [ModAck (ModAckRequest ''a'' 10)] = [] \<and>
   Send \<lparr>ack_ids = [], modify_deadline_ack_ids = [''a''], modify_deadline_seconds = [10]\<rparr>
     \<in> set (calls_of (dispatch_callback [ModAck (ModAckRequest ''a'' 10)])
               \<lparr>leaser_present = True, calls = [], warnings = []\<rparr>) \<and>
   MaybePauseConsumer
     \<notin> set (calls_of (dispatch_callback [ModAck (ModAckRequest ''a'' 10)])
               \<lparr>leaser_present = True, calls = [], warnings = []\<rparr>) \<and>
   MaybeResumeConsumer
     \<notin> set (calls_of (dispatch_callback [ModAck (ModAckRequest ''a'' 10)])
               \<lparr>leaser_present = True, calls = [], warnings = []\<rparr>)"
proof -
  let ?w = "\<lparr>leaser_present = True, calls = [], warnings = []\<rparr>"
  let ?u = "[Unrecognized ''str'']"
  let ?m = "[ModAck (ModAckRequest ''a'' 10)]"
  have u: "\<forall>item \<in> set ?u. \<not> recognized item" by simp
  with handlers_only_for_nonempty_buckets[of ?u ?w]
  have "fst (dispatch_callback ?u ?w) = Returned \<and>
        calls (snd (dispatch_callback ?u ?w)) = calls ?w"
    by blast
  moreover have "warnings (snd (dispatch_callback ?u ?w)) = [unknown_warning ''str'']"
    and "leaser_present (snd (dispatch_callback ?u ?w))"
    by (simp_all add: dispatch_callback_present)
  ultimately have a: "dispatch_callback ?u ?w
     = (Returned, \<lparr>leaser_present = True, calls = [], warnings = [unknown_warning ''str'']\<rparr>)"
    by (cases "dispatch_callback ?u ?w") auto
  have e: "leases_in ?m = []" "acks_in ?m = []" "nacks_in ?m = []" "drops_in ?m = []"
    by simp_all
  have one: "total_chunks (Suc 0) = Suc 0" by (simp add: total_chunks_div)
  have s: "Send \<lparr>ack_ids = [], modify_deadline_ack_ids = [''a''],
                 modify_deadline_seconds = [10]\<rparr>
           \<in> set (calls_of (dispatch_callback ?m) ?w)"
    by (simp add: calls_of_dispatch_present bucket_calls_def modack_calls_def one
        ACK_IDS_BATCH_SIZE_def)
  from handlers_only_for_nonempty_buckets[of ?m ?w] e
  have "\<forall>c \<in> set (calls_of (dispatch_callback ?m) ?w).
           c \<noteq> MaybePauseConsumer \<and> (\<forall>xs. c \<noteq> LeaserAdd xs)"
    and "\<forall>c \<in> set (calls_of (dispatch_callback ?m) ?w).
           c \<noteq> MaybeResumeConsumer \<and> (\<forall>xs. c \<noteq> LeaserRemove xs) \<and>
           (\<forall>ks. c \<noteq> ActivateOrderingKeys ks)"
    by blast+
  then have n: "MaybePauseConsumer \<notin> set (calls_of (dispatch_callback ?m) ?w)"
    "MaybeResumeConsumer \<notin> set (calls_of (dispatch_callback ?m) ?w)"
    by blast+
  have r: "\<not> recognized (Unrecognized ''str'')" by simp
  from r a e s n show ?thesis by blast
qed

section \<open>Starting and stopping\<close>

text \<open>
  C6. \<^verbatim>\<open>start()\<close> on a dispatcher that has a worker thread raises
  \<^verbatim>\<open>ValueError\<close> and changes nothing: the thread stays, none is started and
  no stop is signalled. \<^verbatim>\<open>stop()\<close> on a dispatcher without a thread returns
  and changes nothing. \<^verbatim>\<open>stop()\<close> always returns without a thread, so a
  second \<^verbatim>\<open>stop()\<close> returns and changes nothing.
\<close>

theorem start_stop_lifecycle:
  "(thread d \<noteq> None \<longrightarrow> start d = (Raised ValueError, d))
   \<and> (thread d = None \<longrightarrow> stop d = (Returned, d))
   \<and> fst (stop d) = Returned
   \<and> thread (snd (stop d)) = None
   \<and> stop (snd (stop d)) = (Returned, snd (stop d))"
  by (simp add: start_def stop_def split: option.split)

theorem start_stop_lifecycle_witness:
  "thread (snd (start \<lparr>thread = None, effects = []\<rparr>)) \<noteq> None \<and>
   start (snd (start \<lparr>thread = None, effects = []\<rparr>))
     = (Raised ValueError, snd (start \<lparr>thread = None, effects = []\<rparr>)) \<and>
   thread (snd (stop (snd (start \<lparr>thread = None, effects = []\<rparr>)))) = None \<and>
   stop (snd (stop (snd (start \<lparr>thread = None, effects = []\<rparr>))))
     = (Returned, snd (stop (snd (start \<lparr>thread = None, effects = []\<rparr>))))"
proof -
  let ?d = "snd (start \<lparr>thread = None, effects = []\<rparr>)"
  have r: "thread ?d \<noteq> None" by (simp add: start_def Let_def)
  from start_stop_lifecycle[of ?d] r
  have "start ?d = (Raised ValueError, ?d)" by blast
  moreover from start_stop_lifecycle[of "snd (stop ?d)"] start_stop_lifecycle[of ?d]
  have "thread (snd (stop ?d)) = None" "stop (snd (stop ?d)) = (Returned, snd (stop ?d))"
    by blast+
  ultimately show ?thesis using r by blast
qed

section \<open>Subtraction of clock readings\<close>

lemma to_real_powr: "to_real d = of_int (mantissa d) * 2 powr (of_int (exponent d))"
  by (simp add: to_real_def powr_real_of_int field_simps)

lemma to_real_Double: "to_real (Double m e) = of_int m * 2 powr (of_int e)"
  by (simp add: to_real_powr)

lemma scaled_mantissa:
  assumes "e \<le> x"
  shows "of_int (m * 2 ^ nat (x - e)) * 2 powr (of_int e) = of_int m * 2 powr (of_int x :: real)"
proof -
  obtain n where x: "x = e + int n" using assms by (metis zle_iff_zadd)
  have "2 powr (of_int (e + int n) :: real) = 2 powr (of_int e) * 2 ^ n"
    by (simp add: powr_add powr_realpow)
  then show ?thesis unfolding x by simp
qed

lemma exact_difference:
  "to_real a - to_real b =
     of_int (mantissa a * 2 ^ nat (exponent a - min (exponent a) (exponent b))
             - mantissa b * 2 ^ nat (exponent b - min (exponent a) (exponent b)))
     * 2 powr (of_int (min (exponent a) (exponent b)))"
proof -
  let ?e = "min (exponent a) (exponent b)"
  have a: "real_of_int (mantissa a * 2 ^ nat (exponent a - ?e)) * 2 powr (of_int ?e)
           = of_int (mantissa a) * 2 powr (of_int (exponent a))"
    by (rule scaled_mantissa) simp
  have b: "real_of_int (mantissa b * 2 ^ nat (exponent b - ?e)) * 2 powr (of_int ?e)
           = of_int (mantissa b) * 2 powr (of_int (exponent b))"
    by (rule scaled_mantissa) simp
  have "real_of_int (mantissa a * 2 ^ nat (exponent a - ?e)
             - mantissa b * 2 ^ nat (exponent b - ?e)) * 2 powr (of_int ?e)
        = real_of_int (mantissa a * 2 ^ nat (exponent a - ?e)) * 2 powr (of_int ?e)
          - real_of_int (mantissa b * 2 ^ nat (exponent b - ?e)) * 2 powr (of_int ?e)"
    by (simp only: of_int_diff left_diff_distrib)
  then show ?thesis by (simp only: a b to_real_powr)
qed

lemma round_half_even_0: "round_half_even m 0 = m"
  by (simp add: round_half_even_def)

lemma round_half_even_bounds:
  "m div 2 ^ k \<le> round_half_even m k \<and> round_half_even m k \<le> m div 2 ^ k + 1"
  by (simp add: round_half_even_def Let_def)

lemma double_sub_exact:
  assumes "\<bar>mantissa a * 2 ^ nat (exponent a - min (exponent a) (exponent b))
             - mantissa b * 2 ^ nat (exponent b - min (exponent a) (exponent b))\<bar> < 2 ^ 53"
  shows "to_real (double_sub a b) = to_real a - to_real b"
proof -
  let ?m = "mantissa a * 2 ^ nat (exponent a - min (exponent a) (exponent b))
             - mantissa b * 2 ^ nat (exponent b - min (exponent a) (exponent b))"
  have "bitlen \<bar>?m\<bar> \<le> 53" using assms by (simp add: bitlen_le_iff_power)
  then have "nat (bitlen \<bar>?m\<bar> - 53) = 0" by simp
  then show ?thesis
    by (simp add: double_sub_def Let_def round_half_even_0 to_real_Double exact_difference)
qed

lemma div_lower:
  assumes "0 < (b::int)" and "c * b \<le> m"
  shows "c \<le> m div b"
proof -
  have "m mod b < b" using assms(1) by simp
  moreover have "m = m div b * b + m mod b" by simp
  ultimately have "m < m div b * b + b" by linarith
  with assms(2) have "c * b < (m div b + 1) * b" by (simp add: algebra_simps)
  then have "c < m div b + 1" using assms(1) by (simp only: mult_less_cancel_right_pos)
  then show ?thesis by simp
qed

lemma div_upper:
  assumes "0 < (b::int)" and "m < c * b"
  shows "m div b < c"
proof -
  have "0 \<le> m mod b" using assms(1) by simp
  moreover have "m = m div b * b + m mod b" by simp
  ultimately have "m div b * b \<le> m" by linarith
  with assms(2) have "m div b * b < c * b" by simp
  then show ?thesis using assms(1) by (simp only: mult_less_cancel_right_pos)
qed

lemma pow2_int: "2 powr (real_of_int (int n)) = (2::real) ^ n"
  by (simp add: powr_realpow)

lemma pow2_neg: "2 powr (real_of_int (- int n)) = 1 / (2::real) ^ n"
  by (simp add: powr_realpow powr_minus inverse_eq_divide)

lemma pow2_less_one:
  assumes "2 powr (real_of_int i) < (1::real)"
  shows "i < 0"
proof (rule ccontr)
  assume "\<not> i < 0"
  then have "0 \<le> real_of_int i" by simp
  then have "(1::real) \<le> 2 powr (real_of_int i)" by (simp add: ge_one_powr_ge_zero)
  with assms show False by simp
qed

lemma rounded_in_unit:
  fixes m e :: int and k :: nat
  assumes low: "2 ^ (52 + k) \<le> m"
    and lt: "real_of_int m * 2 powr (real_of_int e) < 1"
  shows "0 < real_of_int (round_half_even m k) * 2 powr (real_of_int (e + int k))"
    and "real_of_int (round_half_even m k) * 2 powr (real_of_int (e + int k)) \<le> 1"
proof -
  let ?q = "m div 2 ^ k"
  let ?r = "round_half_even m k"
  have qr: "?q \<le> ?r" "?r \<le> ?q + 1" using round_half_even_bounds[of m k] by simp_all
  have "(2::int) ^ 52 * 2 ^ k \<le> m" using low by (simp add: power_add)
  then have "2 ^ 52 \<le> ?q" by (intro div_lower) simp_all
  moreover have "(0::int) < 2 ^ 52" by simp
  ultimately have rpos: "0 < ?r" using qr by linarith
  then have "0 < real_of_int ?r" by (simp only: of_int_0_less_iff)
  then show "0 < real_of_int ?r * 2 powr (real_of_int (e + int k))"
    by (simp only: zero_less_mult_iff powr_gt_zero) simp
  have "real_of_int (2 ^ (52 + k)) \<le> real_of_int m" using low by (simp only: of_int_le_iff)
  then have "real_of_int (2 ^ (52 + k)) * 2 powr (real_of_int e)
               \<le> real_of_int m * 2 powr (real_of_int e)"
    by (intro mult_right_mono) simp_all
  with lt have "real_of_int (2 ^ (52 + k)) * 2 powr (real_of_int e) < 1" by linarith
  moreover have "real_of_int (2 ^ (52 + k)) = 2 powr (real_of_int (int (52 + k)))"
    by (simp only: pow2_int) simp
  ultimately have "2 powr (real_of_int (int (52 + k))) * 2 powr (real_of_int e) < 1" by simp
  then have "2 powr (real_of_int (int (52 + k) + e)) < (1::real)"
    by (simp only: of_int_add powr_add)
  then have neg: "int (52 + k) + e < 0" by (rule pow2_less_one)
  define j where "j = nat (- (e + int k))"
  have j: "e + int k = - int j" using neg by (simp add: j_def)
  have e: "e = - int (j + k)" using j by simp
  have pj: "2 powr (real_of_int (e + int k)) = 1 / (2::real) ^ j"
    by (simp only: j pow2_neg)
  have pe: "2 powr (real_of_int e) = 1 / (2::real) ^ (j + k)"
    by (simp only: e pow2_neg)
  from lt have "real_of_int m / 2 ^ (j + k) < 1" by (simp only: pe) simp
  then have "real_of_int m < 2 ^ (j + k)" by (simp add: field_simps)
  moreover have "(2::real) ^ (j + k) = real_of_int (2 ^ (j + k))" by simp
  ultimately have "real_of_int m < real_of_int (2 ^ (j + k))" by (simp only:)
  then have "m < 2 ^ (j + k)" by (simp only: of_int_less_iff)
  then have "m < 2 ^ j * 2 ^ k" by (simp add: power_add)
  then have "?q < 2 ^ j" by (intro div_upper) simp_all
  with qr have "?r \<le> 2 ^ j" by linarith
  then have "real_of_int ?r \<le> real_of_int (2 ^ j)" by (simp only: of_int_le_iff)
  then have "real_of_int ?r \<le> 2 ^ j" by simp
  then have "real_of_int ?r / 2 ^ j \<le> 1" by (simp add: field_simps)
  then show "real_of_int ?r * 2 powr (real_of_int (e + int k)) \<le> 1"
    by (simp only: pj) simp
qed


lemma double_sub_in_unit:
  assumes pos: "0 < to_real a - to_real b" and lt: "to_real a - to_real b < 1"
  shows "0 < to_real (double_sub a b) \<and> to_real (double_sub a b) \<le> 1"
proof -
  define e where "e = min (exponent a) (exponent b)"
  define m where
    "m = mantissa a * 2 ^ nat (exponent a - e) - mantissa b * 2 ^ nat (exponent b - e)"
  define k where "k = nat (bitlen \<bar>m\<bar> - 53)"
  have D: "to_real a - to_real b = real_of_int m * 2 powr (real_of_int e)"
    unfolding m_def e_def by (rule exact_difference)
  have mpos: "0 < m"
  proof -
    from pos D have "0 < real_of_int m * 2 powr (real_of_int e)" by (simp only:)
    then have "0 < real_of_int m" by (simp only: zero_less_mult_iff powr_gt_zero) simp
    then show ?thesis by (simp only: of_int_0_less_iff)
  qed
  have R: "to_real (double_sub a b)
           = real_of_int (round_half_even m k) * 2 powr (real_of_int (e + int k))"
    unfolding k_def m_def e_def by (simp only: double_sub_def Let_def to_real_Double)
  from lt D have lt': "real_of_int m * 2 powr (real_of_int e) < 1" by (simp only:)
  from pos D have pos': "0 < real_of_int m * 2 powr (real_of_int e)" by (simp only:)
  show ?thesis
  proof (cases "k = 0")
    case True
    have "to_real (double_sub a b) = real_of_int m * 2 powr (real_of_int e)"
      unfolding R True by (simp add: round_half_even_0)
    with pos' lt' show ?thesis by simp
  next
    case False
    then have "0 < bitlen \<bar>m\<bar> - 53" unfolding k_def by simp
    then have "bitlen m = 53 + int k" using mpos unfolding k_def by simp
    with bitlen_bounds[OF mpos] have low: "2 ^ (52 + k) \<le> m"
      by (simp add: nat_add_distrib)
    from rounded_in_unit[OF low lt'] show ?thesis unfolding R by simp
  qed
qed

lemma ceiling_in_unit:
  assumes "0 < to_real a - to_real b" and "to_real a - to_real b < 1"
  shows "math_ceil (double_sub a b) = 1"
proof -
  from double_sub_in_unit[OF assms]
  have "0 < to_real (double_sub a b)" "to_real (double_sub a b) \<le> 1" by simp_all
  then show ?thesis unfolding math_ceil_def by (intro ceiling_unique) simp_all
qed

lemma exact_when_narrow:
  assumes "\<bar>to_real a - to_real b\<bar>
             < 2 ^ 53 * to_real (Double 1 (min (exponent a) (exponent b)))"
  shows "to_real (double_sub a b) = to_real a - to_real b"
proof -
  let ?e = "min (exponent a) (exponent b)"
  let ?m = "mantissa a * 2 ^ nat (exponent a - ?e) - mantissa b * 2 ^ nat (exponent b - ?e)"
  have D: "to_real a - to_real b = real_of_int ?m * 2 powr (real_of_int ?e)"
    by (rule exact_difference)
  have "\<bar>real_of_int ?m * 2 powr (real_of_int ?e)\<bar> < 2 ^ 53 * 2 powr (real_of_int ?e)"
    using assms by (simp only: D to_real_Double)
  then have "\<bar>real_of_int ?m\<bar> * 2 powr (real_of_int ?e) < 2 ^ 53 * 2 powr (real_of_int ?e)"
    by (simp add: abs_mult)
  then have "\<bar>real_of_int ?m\<bar> < 2 ^ 53"
    by (simp only: mult_less_cancel_right_pos powr_gt_zero)
  then have "real_of_int \<bar>?m\<bar> < real_of_int (2 ^ 53)" by simp
  then have "\<bar>?m\<bar> < 2 ^ 53" by (simp only: of_int_less_iff)
  then show ?thesis by (rule double_sub_exact)
qed



text \<open>
  Two instances. The readings 100.0 and 100.75 have the exact difference 0.75. For the
  floats nearest to 0.1 and 1.1 the difference is rounded to 1.0, so its ceiling is 1,
  while the exact difference of the two floats is above 1.
\<close>

lemma three_quarters_sub:
  "double_sub (Double 403 (- 2)) (Double 100 0) = Double 3 (- 2)"
proof -
  have b: "bitlen 3 = 2" using bitlen_twopow_add_eq[of 1 1] by simp
  show ?thesis
    by (simp add: double_sub_def Let_def round_half_even_def b)
qed

lemma point_one_sub:
  "double_sub (Double 4953959590107546 (- 52)) (Double 3602879701896397 (- 55))
     = Double 4503599627370496 (- 52)"
proof -
  have b: "bitlen 36028797018963971 = 56"
    using bitlen_twopow_add_eq[of 3 55] by simp
  show ?thesis
    by (simp add: double_sub_def Let_def round_half_even_def b)
qed

lemma point_one:
  "math_ceil (double_sub (Double 4953959590107546 (- 52)) (Double 3602879701896397 (- 55))) = 1
   \<and> \<lceil>to_real (Double 4953959590107546 (- 52)) - to_real (Double 3602879701896397 (- 55))\<rceil> = 2"
  by (simp add: point_one_sub math_ceil_def to_real_def)

section \<open>Operations of the message handle\<close>

text \<open>
  C8. For a handle constructed at time \<open>t0\<close>, \<^verbatim>\<open>ack()\<close> called at time
  \<open>t1\<close> returns after putting on the queue exactly one \<^verbatim>\<open>AckRequest\<close> with
  the handle's ack id, size and ordering key and with \<open>time_to_ack\<close> the ceiling of
  the float difference \<open>t1 - t0\<close>. That is \<open>\<lceil>t1 - t0\<rceil>\<close> whenever the difference is
  exact, which it is when it is less than \<open>2 ^ 53\<close> units of the last place of the finer
  of the two readings. When the elapsed time is positive and less than one second,
  \<open>time_to_ack\<close> is 1, whatever the rounding.
\<close>

theorem ack_time_to_ack:
  assumes "message s = Message_init fromtimestamp pb aid attempt t0"
  shows "Message_ack t1 s =
     (Returned,
      s\<lparr>request_queue := request_queue s @
           [Ack (AckRequest aid (pb_byte_size pb) (Some \<lceil>to_real (double_sub t1 t0)\<rceil>)
                   (pb_ordering_key pb))]\<rparr>)
     \<and> (\<bar>to_real t1 - to_real t0\<bar>
           < 2 ^ 53 * to_real (Double 1 (min (exponent t1) (exponent t0))) \<longrightarrow>
          Message_ack t1 s =
            (Returned,
             s\<lparr>request_queue := request_queue s @
                  [Ack (AckRequest aid (pb_byte_size pb) (Some \<lceil>to_real t1 - to_real t0\<rceil>)
                          (pb_ordering_key pb))]\<rparr>))
     \<and> (0 < to_real t1 - to_real t0 \<and> to_real t1 - to_real t0 < 1 \<longrightarrow>
          Message_ack t1 s =
            (Returned,
             s\<lparr>request_queue := request_queue s @
                  [Ack (AckRequest aid (pb_byte_size pb) (Some 1) (pb_ordering_key pb))]\<rparr>))"
proof -
  have first: "Message_ack t1 s =
     (Returned,
      s\<lparr>request_queue := request_queue s @
           [Ack (AckRequest aid (pb_byte_size pb) (Some \<lceil>to_real (double_sub t1 t0)\<rceil>)
                   (pb_ordering_key pb))]\<rparr>)"
    by (simp add: Message_ack_def queue_put_def assms Message_init_def math_ceil_def)
  have exact: "\<lceil>to_real (double_sub t1 t0)\<rceil> = \<lceil>to_real t1 - to_real t0\<rceil>"
    if "\<bar>to_real t1 - to_real t0\<bar>
           < 2 ^ 53 * to_real (Double 1 (min (exponent t1) (exponent t0)))"
    using exact_when_narrow[OF that] by simp
  have unit: "\<lceil>to_real (double_sub t1 t0)\<rceil> = 1"
    if "0 < to_real t1 - to_real t0" "to_real t1 - to_real t0 < 1"
    using ceiling_in_unit[OF that] by (simp add: math_ceil_def)
  from first exact unit show ?thesis by simp
qed

theorem ack_time_to_ack_witness:
  "is_double (Double 100 0) \<and> is_double (Double 403 (- 2))
   \<and> message
     \<lparr>message = Message_init (\<lambda>secs nanos. secs * 1000000 + nanos div 1000)
        \<lparr>pb_message_id = ''1'', pb_attributes = [], pb_data = ''x'', pb_publish_seconds = 5,
         pb_publish_nanos = 0, pb_ordering_key = ''k'', pb_byte_size = 12\<rparr>
        ''a'' 0 (Double 100 0),
      request_queue = [],
      collaborators = \<lparr>leaser_present = True, calls = [], warnings = []\<rparr>\<rparr>
   = Message_init (\<lambda>secs nanos. secs * 1000000 + nanos div 1000)
        \<lparr>pb_message_id = ''1'', pb_attributes = [], pb_data = ''x'', pb_publish_seconds = 5,
         pb_publish_nanos = 0, pb_ordering_key = ''k'', pb_byte_size = 12\<rparr>
        ''a'' 0 (Double 100 0)
   \<and> to_real (Double 403 (- 2)) - to_real (Double 100 0) = 3 / 4
   \<and> request_queue (snd (Message_ack (Double 403 (- 2))
       \<lparr>message = Message_init (\<lambda>secs nanos. secs * 1000000 + nanos div 1000)
          \<lparr>pb_message_id = ''1'', pb_attributes = [], pb_data = ''x'', pb_publish_seconds = 5,
           pb_publish_nanos = 0, pb_ordering_key = ''k'', pb_byte_size = 12\<rparr>
          ''a'' 0 (Double 100 0),
        request_queue = [],
        collaborators = \<lparr>leaser_present = True, calls = [], warnings = []\<rparr>\<rparr>))
     = [Ack (AckRequest ''a'' 12 (Some 1) ''k'')]"
proof -
  let ?f = "\<lambda>secs nanos :: int. secs * 1000000 + nanos div 1000"
  let ?pb = "\<lparr>pb_message_id = ''1'', pb_attributes = [], pb_data = ''x'', pb_publish_seconds = 5,
         pb_publish_nanos = 0, pb_ordering_key = ''k'', pb_byte_size = 12\<rparr>"
  let ?t0 = "Double 100 0"
  let ?t1 = "Double 403 (- 2)"
  let ?s = "\<lparr>message = Message_init ?f ?pb ''a'' 0 ?t0, request_queue = [],
      collaborators = \<lparr>leaser_present = True, calls = [], warnings = []\<rparr>\<rparr>"
  have d: "is_double ?t0 \<and> is_double ?t1" by (simp add: is_double_def)
  have m: "message ?s = Message_init ?f ?pb ''a'' 0 ?t0" by simp
  have e: "to_real ?t1 - to_real ?t0 = 3 / 4" by (simp add: to_real_def)
  have n: "\<bar>to_real ?t1 - to_real ?t0\<bar>
             < 2 ^ 53 * to_real (Double 1 (min (exponent ?t1) (exponent ?t0)))"
    by (simp add: to_real_def)
  have u: "0 < to_real ?t1 - to_real ?t0 \<and> to_real ?t1 - to_real ?t0 < 1"
    by (simp add: e)
  note inst = ack_time_to_ack[OF m, of ?t1]
  from inst n have "Message_ack ?t1 ?s =
            (Returned,
             ?s\<lparr>request_queue := request_queue ?s @
                  [Ack (AckRequest ''a'' (pb_byte_size ?pb) (Some \<lceil>to_real ?t1 - to_real ?t0\<rceil>)
                          (pb_ordering_key ?pb))]\<rparr>)"
    by blast
  moreover from inst u have "Message_ack ?t1 ?s =
            (Returned,
             ?s\<lparr>request_queue := request_queue ?s @
                  [Ack (AckRequest ''a'' (pb_byte_size ?pb) (Some 1) (pb_ordering_key ?pb))]\<rparr>)"
    by blast
  ultimately have "request_queue (snd (Message_ack ?t1 ?s))
     = [Ack (AckRequest ''a'' 12 (Some 1) ''k'')]"
    by simp
  with d m e show ?thesis by blast
qed

lemma call_op_enqueues:
  "fst (call_op op s) = Returned \<and> message (snd (call_op op s)) = message s \<and>
   collaborators (snd (call_op op s)) = collaborators s \<and>
   (\<exists>item. request_queue (snd (call_op op s)) = request_queue s @ [item])"
  by (cases op)
     (simp_all add: Message_ack_def Message_nack_def Message_modify_ack_deadline_def
       Message_drop_def queue_put_def)

lemma call_ops_enqueue:
  "fst (call_ops ops s) = Returned \<and> message (snd (call_ops ops s)) = message s \<and>
   collaborators (snd (call_ops ops s)) = collaborators s \<and>
   length (request_queue (snd (call_ops ops s))) = length (request_queue s) + length ops \<and>
   take (length (request_queue s)) (request_queue (snd (call_ops ops s))) = request_queue s"
proof (induction ops arbitrary: s)
  case Nil
  show ?case by simp
next
  case (Cons op ops)
  obtain s' where s': "call_op op s = (Returned, s')"
    using call_op_enqueues[of op s] by (cases "call_op op s") auto
  from call_op_enqueues[of op s] s' obtain item where
    q: "request_queue s' = request_queue s @ [item]"
    and m: "message s' = message s" and c: "collaborators s' = collaborators s"
    by auto
  have step: "call_ops (op # ops) s = call_ops ops s'" by (simp add: s')
  from Cons.IH[of s'] have
    "take (length (request_queue s')) (request_queue (snd (call_ops ops s'))) = request_queue s'"
    by blast
  then have "take (length (request_queue s))
               (take (length (request_queue s')) (request_queue (snd (call_ops ops s'))))
             = take (length (request_queue s)) (request_queue s')"
    by simp
  then have t: "take (length (request_queue s)) (request_queue (snd (call_ops ops s')))
             = request_queue s"
    by (simp add: q min_def)
  show ?case unfolding step using Cons.IH[of s'] m c q t by simp
qed

text \<open>
  C9. Whatever operations were called on a handle before, they all returned, the handle
  and the collaborators of the dispatcher are as they were, and the queue has grown by one
  record for each call, behind what it held. Then each of \<^verbatim>\<open>ack\<close>,
  \<^verbatim>\<open>nack\<close>, \<^verbatim>\<open>modify_ack_deadline\<close> and \<^verbatim>\<open>drop\<close>
  returns and changes nothing but the queue, to which it appends the one record of its
  kind, with the handle's ack id, size and ordering key (and the seconds it was given).
\<close>

theorem handle_operations_only_enqueue:
  "fst (call_ops ops s) = Returned
   \<and> message (snd (call_ops ops s)) = message s
   \<and> collaborators (snd (call_ops ops s)) = collaborators s
   \<and> length (request_queue (snd (call_ops ops s))) = length (request_queue s) + length ops
   \<and> take (length (request_queue s)) (request_queue (snd (call_ops ops s))) = request_queue s
   \<and> (let s' = snd (call_ops ops s); m = message s in
        Message_ack now s' =
          (Returned,
           s'\<lparr>request_queue := request_queue s' @
                [Ack (AckRequest (Message.ack_id m) (size_bytes m)
                        (Some (math_ceil (double_sub now (received_timestamp m))))
                        (Message.ordering_key m))]\<rparr>)
        \<and> Message_nack s' =
          (Returned,
           s'\<lparr>request_queue := request_queue s' @
                [Nack (NackRequest (Message.ack_id m) (size_bytes m) (Message.ordering_key m))]\<rparr>)
        \<and> Message_modify_ack_deadline secs s' =
          (Returned,
           s'\<lparr>request_queue := request_queue s' @
                [ModAck (ModAckRequest (Message.ack_id m) secs)]\<rparr>)
        \<and> Message_drop s' =
          (Returned,
           s'\<lparr>request_queue := request_queue s' @
                [Drop (DropRequest (Message.ack_id m) (size_bytes m) (Message.ordering_key m))]\<rparr>))"
proof -
  have m: "message (snd (call_ops ops s)) = message s" using call_ops_enqueue by blast
  have ops: "Message_ack now (snd (call_ops ops s)) =
          (Returned,
           (snd (call_ops ops s))\<lparr>request_queue := request_queue (snd (call_ops ops s)) @
                [Ack (AckRequest (Message.ack_id (message s)) (size_bytes (message s))
                        (Some (math_ceil (double_sub now (received_timestamp (message s)))))
                        (Message.ordering_key (message s)))]\<rparr>)"
    "Message_nack (snd (call_ops ops s)) =
          (Returned,
           (snd (call_ops ops s))\<lparr>request_queue := request_queue (snd (call_ops ops s)) @
                [Nack (NackRequest (Message.ack_id (message s)) (size_bytes (message s))
                   (Message.ordering_key (message s)))]\<rparr>)"
    "Message_modify_ack_deadline secs (snd (call_ops ops s)) =
          (Returned,
           (snd (call_ops ops s))\<lparr>request_queue := request_queue (snd (call_ops ops s)) @
                [ModAck (ModAckRequest (Message.ack_id (message s)) secs)]\<rparr>)"
    "Message_drop (snd (call_ops ops s)) =
          (Returned,
           (snd (call_ops ops s))\<lparr>request_queue := request_queue (snd (call_ops ops s)) @
                [Drop (DropRequest (Message.ack_id (message s)) (size_bytes (message s))
                   (Message.ordering_key (message s)))]\<rparr>)"
    by (simp_all add: Message_ack_def Message_nack_def Message_modify_ack_deadline_def
        Message_drop_def queue_put_def m)
  show ?thesis unfolding Let_def using call_ops_enqueue[of ops s] ops by blast
qed


end
